theory Spec2Isabelle
  imports Complex_Main
begin

section \<open>arena-chan-dl: the channel download pipeline of \<open>src/index.js\<close>\<close>

text \<open>
  The program fetches a channel summary, fetches every page of the channel's contents,
  flattens the pages and downloads the blocks chunk after chunk. The embedding below
  follows \<open>downloadBlock\<close> (lines 63 to 106) and \<open>downloadChannel\<close> (lines 111 to 189).

  Everything the program asks of the outside world (the HTTP client, the file system, and
  the libraries \<open>slugify\<close>, \<open>mime-types\<close> and \<open>path\<close>) is a field of the record \<open>env\<close>:
  the answer each call receives. The program is deterministic once these answers are
  fixed, so a statement for every \<open>env\<close> is a statement about every run. What the program
  does to the outside world is a list of events, in the order the calls are made.

  The responses have the shape the API gives them: a summary with a title and an integer
  length, a page with a list of blocks, a block with an identifier, an optional title and
  an optional image. Counts and lists are unbounded: the limits of the engine (memory, the
  length of an array, the 53 bits of a double) are not part of the model.
\<close>

subsection \<open>JavaScript numbers\<close>

text \<open>
  The chunk size comes from the command line as a JavaScript number (yargs option of type
  \<open>number\<close>): it need not be an integer and it may be \<open>NaN\<close> or infinite. Finite numbers
  are modelled by rationals; comparison and \<open>ToIntegerOrInfinity\<close> are exact on them.
  Addition is the exact sum. The source rounds every sum to a double, so the two agree
  where the exact sum is a double: on the integers a run can reach (the loop variable
  with an integer chunk size) and on sums such as \<open>2.5 + 2.5\<close>. For a chunk size such as
  \<open>1.1\<close> the loop variable of the source drifts from the exact one by its rounding, and
  the chunks may be cut one block earlier or later than the model says; the statements
  below that fix where chunks are cut are about integer chunk sizes.
\<close>

datatype jsnum = Num rat | NaN | PosInf | NegInf

text \<open>\<open>a < b\<close>: false as soon as one side is \<open>NaN\<close>.\<close>

fun js_less :: "jsnum \<Rightarrow> jsnum \<Rightarrow> bool" where
  "js_less NaN _ = False"
| "js_less _ NaN = False"
| "js_less (Num a) (Num b) = (a < b)"
| "js_less (Num a) PosInf = True"
| "js_less (Num a) NegInf = False"
| "js_less PosInf _ = False"
| "js_less NegInf NegInf = False"
| "js_less NegInf _ = True"

text \<open>\<open>a > b\<close> is \<open>b < a\<close>.\<close>

definition js_greater :: "jsnum \<Rightarrow> jsnum \<Rightarrow> bool" where
  "js_greater a b = js_less b a"

fun js_add :: "jsnum \<Rightarrow> jsnum \<Rightarrow> jsnum" where
  "js_add NaN _ = NaN"
| "js_add _ NaN = NaN"
| "js_add (Num a) (Num b) = Num (a + b)"
| "js_add (Num a) PosInf = PosInf"
| "js_add (Num a) NegInf = NegInf"
| "js_add PosInf NegInf = NaN"
| "js_add PosInf _ = PosInf"
| "js_add NegInf PosInf = NaN"
| "js_add NegInf _ = NegInf"

text \<open>The result of \<open>ToIntegerOrInfinity\<close>: \<open>NaN\<close> gives 0, a finite number is truncated
  towards zero.\<close>

datatype jsint = NegInfI | FinI int | PosInfI

definition trunc :: "rat \<Rightarrow> int" where
  "trunc r = (if 0 \<le> r then \<lfloor>r\<rfloor> else \<lceil>r\<rceil>)"

fun toIntegerOrInfinity :: "jsnum \<Rightarrow> jsint" where
  "toIntegerOrInfinity NaN = FinI 0"
| "toIntegerOrInfinity (Num r) = FinI (trunc r)"
| "toIntegerOrInfinity PosInf = PosInfI"
| "toIntegerOrInfinity NegInf = NegInfI"

text \<open>The position \<open>Array.prototype.slice\<close> makes of an argument, for an array of
  \<open>len\<close> elements: a negative argument counts from the end, and the result is clamped
  to \<open>0 .. len\<close>.\<close>

fun relativeIndex :: "nat \<Rightarrow> jsint \<Rightarrow> nat" where
  "relativeIndex len NegInfI = 0"
| "relativeIndex len PosInfI = len"
| "relativeIndex len (FinI z) =
     (if z < 0 then nat (max (int len + z) 0) else min (nat z) len)"

definition slice :: "'a list \<Rightarrow> jsnum \<Rightarrow> jsnum \<Rightarrow> 'a list" where
  "slice xs start end' =
     (let k = relativeIndex (length xs) (toIntegerOrInfinity start);
          final = relativeIndex (length xs) (toIntegerOrInfinity end')
      in take (final - k) (drop k xs))"

subsection \<open>Data model\<close>

type_synonym error = string

type_synonym bytes = "nat list"

datatype ident = IdNum int | IdStr string

text \<open>\<open>original_url\<close> is \<open>image.original?.url\<close>: \<open>None\<close> when \<open>original\<close> or its
  \<open>url\<close> is missing.\<close>

record image =
  original_url :: "string option"
  content_type :: "string option"

record block =
  block_id :: ident
  block_title :: "string option"
  block_image :: "image option"

text \<open>The response of the summary endpoint and of the page endpoint.\<close>

record summary =
  chan_title :: string
  chan_length :: int

record page =
  contents :: "block list"

text \<open>The second argument of \<open>downloadBlock\<close>. The index is \<open>i + idx + 1\<close>, a number.\<close>

record options =
  opt_slug :: string
  opt_outputDir :: string
  opt_index :: jsnum

text \<open>The object \<open>downloadBlock\<close> returns: \<open>{success, reason}\<close> or \<open>{success, filepath}\<close>.\<close>

record outcome =
  success :: bool
  reason :: "string option"
  filepath :: "string option"

text \<open>
  The answers of the outside world. The calls made for one block carry the block's index,
  so that two requests for the same URL or path may fare differently.
  \<open>slugify\<close> may throw; \<open>extension\<close> returns \<open>false\<close> (here \<open>None\<close>) for a content type
  it does not know. The page requests are all under way at once; \<open>page_arrival\<close> is the
  time at which the answer for a page arrives.
\<close>

record env =
  getThumb_resp :: "string \<Rightarrow> error + summary"
  getPage_resp :: "string \<Rightarrow> nat \<Rightarrow> nat \<Rightarrow> error + page"
  page_arrival :: "string \<Rightarrow> nat \<Rightarrow> nat"
  mkdir_resp :: "jsnum \<Rightarrow> string \<Rightarrow> error option"
  get_resp :: "jsnum \<Rightarrow> string \<Rightarrow> error + bytes"
  writeFile_resp :: "jsnum \<Rightarrow> string \<Rightarrow> bytes \<Rightarrow> error option"
  slugify :: "string \<Rightarrow> error + string"
  extension :: "string option \<Rightarrow> string option"
  path_join :: "string \<Rightarrow> string \<Rightarrow> string"
  path_resolve :: "string \<Rightarrow> string"

text \<open>
  The events of a run: the requests sent, the file system calls made, the calls of
  \<open>downloadBlock\<close> (with its line "Download #index"), and the counters the program prints
  (the progress line after each chunk, the final summary).
\<close>

datatype event =
    FetchThumb string
  | FetchPage string nat nat
  | Download jsnum block
  | MkDir string
  | FetchImage string
  | WriteFile string bytes
  | Progress nat nat nat
  | Summary nat nat
  | EmptyChannel
  | Fatal error

subsection \<open>Template strings\<close>

fun digits :: "nat \<Rightarrow> string" where
  "digits n =
     (if n < 10 then [''0123456789'' ! n]
      else digits (n div 10) @ [''0123456789'' ! (n mod 10)])"

declare digits.simps [simp del]

definition show_int :: "int \<Rightarrow> string" where
  "show_int z = (if z < 0 then CHR ''-'' # digits (nat (- z)) else digits (nat z))"

text \<open>\<open>${block.id}\<close>: the decimal digits of a number, a string as it is.\<close>

fun show_ident :: "ident \<Rightarrow> string" where
  "show_ident (IdNum z) = show_int z"
| "show_ident (IdStr s) = s"

subsection \<open>downloadBlock\<close>

text \<open>\<open>block.image?.original?.url\<close> when it is truthy: present and not the empty string.\<close>

definition image_url :: "block \<Rightarrow> string option" where
  "image_url b =
     (case block_image b of
        None \<Rightarrow> None
      | Some im \<Rightarrow>
          (case original_url im of
             None \<Rightarrow> None
           | Some u \<Rightarrow> if u = [] then None else Some u))"

text \<open>Lines 88 to 92: the slugified title, or the identifier when the title is missing or
  empty (an empty string is falsy).\<close>

definition slug_title :: "env \<Rightarrow> block \<Rightarrow> error + string" where
  "slug_title env b =
     (case block_title b of
        None \<Rightarrow> Inr (show_ident (block_id b))
      | Some t \<Rightarrow> if t = [] then Inr (show_ident (block_id b)) else slugify env t)"

text \<open>Line 94: \<open>extension(block.image.content_type) || 'bin'\<close> takes \<open>bin\<close> for \<open>false\<close>
  and for the empty string.\<close>

definition file_ext :: "env \<Rightarrow> image \<Rightarrow> string" where
  "file_ext env im =
     (case extension env (content_type im) of
        None \<Rightarrow> ''bin''
      | Some x \<Rightarrow> if x = [] then ''bin'' else x)"

text \<open>Lines 88 to 95. Reading \<open>block.image.content_type\<close> of a block with no image
  throws.\<close>

definition block_filename :: "env \<Rightarrow> block \<Rightarrow> error + string" where
  "block_filename env b =
     (case slug_title env b of
        Inl e \<Rightarrow> Inl e
      | Inr title \<Rightarrow>
          (case block_image b of
             None \<Rightarrow> Inl ''Cannot read properties of undefined''
           | Some im \<Rightarrow>
               Inr (show_ident (block_id b) @ ''_'' @ title @ ''.'' @ file_ext env im)))"

text \<open>The body of the \<open>try\<close> (lines 78 to 101): \<open>Inl\<close> is a thrown error, \<open>Inr\<close> the path
  written. The events are those up to the call that threw.\<close>

definition downloadBlock_try ::
  "env \<Rightarrow> block \<Rightarrow> options \<Rightarrow> string \<Rightarrow> (error + string) \<times> event list" where
  "downloadBlock_try env b opts imageUrl =
     (let channelDir = path_join env (opt_outputDir opts) (opt_slug opts) in
      case mkdir_resp env (opt_index opts) channelDir of
        Some e \<Rightarrow> (Inl e, [MkDir channelDir])
      | None \<Rightarrow>
          (case get_resp env (opt_index opts) imageUrl of
             Inl e \<Rightarrow> (Inl e, [MkDir channelDir, FetchImage imageUrl])
           | Inr data \<Rightarrow>
               (case block_filename env b of
                  Inl e \<Rightarrow> (Inl e, [MkDir channelDir, FetchImage imageUrl])
                | Inr filename \<Rightarrow>
                    (let fp = path_join env channelDir filename in
                     case writeFile_resp env (opt_index opts) fp data of
                       Some e \<Rightarrow>
                         (Inl e, [MkDir channelDir, FetchImage imageUrl, WriteFile fp data])
                     | None \<Rightarrow>
                         (Inr fp, [MkDir channelDir, FetchImage imageUrl, WriteFile fp data])))))"

text \<open>The whole function. Its value is the settled promise: \<open>Inl\<close> a rejection, \<open>Inr\<close>
  the returned object. The \<open>catch\<close> turns every error of the \<open>try\<close> into an object.\<close>

definition downloadBlock :: "env \<Rightarrow> block \<Rightarrow> options \<Rightarrow> (error + outcome) \<times> event list" where
  "downloadBlock env b opts =
     (case image_url b of
        None \<Rightarrow>
          (Inr \<lparr>success = False, reason = Some ''no-image'', filepath = None\<rparr>,
           [Download (opt_index opts) b])
      | Some imageUrl \<Rightarrow>
          (case downloadBlock_try env b opts imageUrl of
             (Inr fp, evs) \<Rightarrow>
               (Inr \<lparr>success = True, reason = None, filepath = Some fp\<rparr>,
                Download (opt_index opts) b # evs)
           | (Inl e, evs) \<Rightarrow>
               (Inr \<lparr>success = False, reason = Some e, filepath = None\<rparr>,
                Download (opt_index opts) b # evs)))"

subsection \<open>downloadChannel\<close>

definition PER_PAGE :: nat where
  "PER_PAGE = 100"

text \<open>\<open>Math.ceil(length / PER_PAGE)\<close>.\<close>

definition totalPages :: "int \<Rightarrow> int" where
  "totalPages len = \<lceil>rat_of_int len / rat_of_nat PER_PAGE\<rceil>"

text \<open>\<open>Array.from({ length: totalPages }, (_, i) => i + 1)\<close>: the page numbers asked for.
  A negative length gives the empty array.\<close>

definition pageNumbers :: "int \<Rightarrow> nat list" where
  "pageNumbers len = map (\<lambda>i. i + 1) [0..<nat (totalPages len)]"

text \<open>The promises given to \<open>Promise.all\<close> are pairs: the time at which the promise
  settles and its result. \<open>first_rejection\<close> is the rejection that arrives first: the one
  of least time (of lowest position among equal times).\<close>

fun first_rejection :: "(nat \<times> (error + 'a)) list \<Rightarrow> (nat \<times> error) option" where
  "first_rejection [] = None"
| "first_rejection ((t, Inr x) # rs) = first_rejection rs"
| "first_rejection ((t, Inl e) # rs) =
     (case first_rejection rs of
        None \<Rightarrow> Some (t, e)
      | Some r \<Rightarrow> if t \<le> fst r then Some (t, e) else Some r)"

fun fulfilled_values :: "(nat \<times> (error + 'a)) list \<Rightarrow> 'a list" where
  "fulfilled_values [] = []"
| "fulfilled_values ((t, Inr x) # rs) = x # fulfilled_values rs"
| "fulfilled_values ((t, Inl e) # rs) = fulfilled_values rs"

text \<open>\<open>Promise.all\<close> (line 147): the values in the order of the promises when every one
  is fulfilled, else the rejection that arrives first.\<close>

definition promise_all :: "(nat \<times> (error + 'a)) list \<Rightarrow> error + 'a list" where
  "promise_all rs =
     (case first_rejection rs of
        Some r \<Rightarrow> Inl (snd r)
      | None \<Rightarrow> Inr (fulfilled_values rs))"

text \<open>The promises of line 143: one for each page, with its time of arrival.\<close>

definition pagePromises :: "env \<Rightarrow> string \<Rightarrow> nat list \<Rightarrow> (nat \<times> (error + page)) list" where
  "pagePromises env slug ps =
     map (\<lambda>p. (page_arrival env slug p, getPage_resp env slug p PER_PAGE)) ps"

text \<open>\<open>pages.flatMap(page => page.contents)\<close>.\<close>

definition flatContents :: "page list \<Rightarrow> block list" where
  "flatContents pages = concat (map contents pages)"

text \<open>\<open>chunk.map((block, idx) => downloadBlock(block, {slug, outputDir, index: i + idx + 1}))\<close>
  under \<open>Promise.allSettled\<close>: the settled result of every block of the chunk, with the
  events of the call. The events of a chunk are listed block after block; the source
  interleaves them at its awaits, keeping the order of each block's own events and the
  order of the \<open>Download\<close> lines.\<close>

definition settleChunk ::
  "env \<Rightarrow> string \<Rightarrow> string \<Rightarrow> jsnum \<Rightarrow> block list \<Rightarrow> ((error + outcome) \<times> event list) list" where
  "settleChunk env slug outputDir i chunk =
     map (\<lambda>(idx, b).
            downloadBlock env b
              \<lparr>opt_slug = slug, opt_outputDir = outputDir,
               opt_index = js_add (js_add i (Num (of_nat idx))) (Num 1)\<rparr>)
         (enumerate 0 chunk)"

text \<open>\<open>result.status === 'fulfilled' && result.value.success\<close> (line 170).\<close>

definition fulfilled_ok :: "error + outcome \<Rightarrow> bool" where
  "fulfilled_ok r = (case r of Inr v \<Rightarrow> success v | Inl _ \<Rightarrow> False)"

text \<open>The body of \<open>results.forEach\<close> (lines 169 to 175) on the pair of counters
  \<open>(downloaded, failed)\<close>.\<close>

definition countResult :: "error + outcome \<Rightarrow> nat \<times> nat \<Rightarrow> nat \<times> nat" where
  "countResult r c =
     (if fulfilled_ok r then (Suc (fst c), snd c) else (fst c, Suc (snd c)))"

text \<open>One turn of the loop body (lines 157 to 180) on the state
  \<open>(downloaded, failed, events)\<close>.\<close>

definition chunkStep ::
  "env \<Rightarrow> string \<Rightarrow> string \<Rightarrow> jsnum \<Rightarrow> block list \<Rightarrow> jsnum \<Rightarrow> nat \<times> nat \<times> event list
     \<Rightarrow> nat \<times> nat \<times> event list" where
  "chunkStep env slug outputDir chunkSize allContents i st =
     (let chunk = slice allContents i (js_add i chunkSize);
          results = settleChunk env slug outputDir i chunk;
          c = fold countResult (map fst results) (fst st, fst (snd st))
      in (fst c, snd c,
          snd (snd st) @ concat (map snd results)
            @ [Progress (fst c) (length allContents) (snd c)]))"

text \<open>The loop \<open>for (let i = 0; i < allContents.length; i += chunkSize)\<close>. Taken alone it
  need not end (a chunk size of 0 never advances), so it returns an option.\<close>

partial_function (option) chunkLoop ::
  "env \<Rightarrow> string \<Rightarrow> string \<Rightarrow> jsnum \<Rightarrow> block list \<Rightarrow> jsnum \<Rightarrow> nat \<times> nat \<times> event list
     \<Rightarrow> (nat \<times> nat \<times> event list) option" where
  "chunkLoop env slug outputDir chunkSize allContents i st =
     (if js_less i (Num (of_nat (length allContents)))
      then chunkLoop env slug outputDir chunkSize allContents (js_add i chunkSize)
             (chunkStep env slug outputDir chunkSize allContents i st)
      else Some st)"

declare chunkLoop.simps [code]

text \<open>The whole function: \<open>Inl\<close> is the error thrown, \<open>Inr\<close> the normal return; with it the
  events of the run. The two checks of lines 113 to 119 come before the \<open>try\<close>, so they
  print no "Fatal error" line.\<close>

definition downloadChannel ::
  "env \<Rightarrow> string \<Rightarrow> string \<Rightarrow> jsnum \<Rightarrow> ((error + unit) \<times> event list) option" where
  "downloadChannel env slug outputDir chunkSize =
     (if slug = [] then Some (Inl ''Valid channel slug is required'', [])
      else if js_less chunkSize (Num 1) \<or> js_greater chunkSize (Num 50)
      then Some (Inl ''Chunk size must be between 1 and 50'', [])
      else
        (let resolvedOutputDir = path_resolve env outputDir in
         case getThumb_resp env slug of
           Inl e \<Rightarrow> Some (Inl e, [FetchThumb slug, Fatal e])
         | Inr s \<Rightarrow>
             if chan_length s = 0 then Some (Inr (), [FetchThumb slug, EmptyChannel])
             else
               (let ps = pageNumbers (chan_length s);
                    tr = FetchThumb slug # map (\<lambda>p. FetchPage slug p PER_PAGE) ps
                in case promise_all (pagePromises env slug ps) of
                     Inl e \<Rightarrow> Some (Inl e, tr @ [Fatal e])
                   | Inr pages \<Rightarrow>
                       map_option
                         (\<lambda>st. (Inr (), snd (snd st) @ [Summary (fst st) (fst (snd st))]))
                         (chunkLoop env slug resolvedOutputDir chunkSize
                            (flatContents pages) (Num 0) (0, 0, tr)))))"

subsection \<open>Reading a run's events\<close>

text \<open>The events a call of \<open>downloadBlock\<close> makes: its line, its requests, its file
  system calls.\<close>

fun block_event :: "event \<Rightarrow> bool" where
  "block_event (Download i b) = True"
| "block_event (MkDir d) = True"
| "block_event (FetchImage u) = True"
| "block_event (WriteFile p d) = True"
| "block_event _ = False"

text \<open>The requests sent over the network.\<close>

fun network_event :: "event \<Rightarrow> bool" where
  "network_event (FetchThumb s) = True"
| "network_event (FetchPage s p per) = True"
| "network_event (FetchImage u) = True"
| "network_event _ = False"

text \<open>The calls that touch the file system.\<close>

fun fs_event :: "event \<Rightarrow> bool" where
  "fs_event (MkDir d) = True"
| "fs_event (WriteFile p d) = True"
| "fs_event _ = False"

text \<open>The events of a call of \<open>downloadBlock\<close> after its "Download" line.\<close>

fun io_event :: "event \<Rightarrow> bool" where
  "io_event (MkDir d) = True"
| "io_event (FetchImage u) = True"
| "io_event (WriteFile p d) = True"
| "io_event _ = False"

fun page_event :: "event \<Rightarrow> bool" where
  "page_event (FetchPage s p per) = True"
| "page_event _ = False"

text \<open>The calls of \<open>downloadBlock\<close> in a list of events, in order: index and block.\<close>

fun download_of :: "event \<Rightarrow> (jsnum \<times> block) list" where
  "download_of (Download i b) = [(i, b)]"
| "download_of _ = []"

definition downloads :: "event list \<Rightarrow> (jsnum \<times> block) list" where
  "downloads tr = concat (map download_of tr)"

text \<open>The chunks of a run: the blocks downloaded between one progress line and the next.
  The state is the list of finished chunks and the chunk under way.\<close>

fun chunk_obs :: "event \<Rightarrow> block list list \<times> block list \<Rightarrow> block list list \<times> block list" where
  "chunk_obs (Download i b) s = (fst s, snd s @ [b])"
| "chunk_obs (Progress d n f) s = (fst s @ [snd s], [])"
| "chunk_obs _ s = s"

definition chunks_seen :: "event list \<Rightarrow> block list list" where
  "chunks_seen tr = fst (fold chunk_obs tr ([], []))"

text \<open>The counters a progress line or the summary shows.\<close>

fun counters_of :: "event \<Rightarrow> (nat \<times> nat) option" where
  "counters_of (Progress d n f) = Some (d, f)"
| "counters_of (Summary d f) = Some (d, f)"
| "counters_of _ = None"

subsection \<open>The loop on an integer chunk size\<close>

text \<open>With a chunk size \<open>k\<close> that is a positive integer the loop variable stays an
  integer, and the loop is the following total function; \<open>chunkLoop_nat\<close> below proves
  that \<open>chunkLoop\<close> returns its value.\<close>

function chunkRun ::
  "env \<Rightarrow> string \<Rightarrow> string \<Rightarrow> nat \<Rightarrow> block list \<Rightarrow> nat \<Rightarrow> nat \<times> nat \<times> event list
     \<Rightarrow> nat \<times> nat \<times> event list" where
  "chunkRun env slug outputDir k allContents m st =
     (if m < length allContents \<and> 0 < k
      then chunkRun env slug outputDir k allContents (m + k)
             (chunkStep env slug outputDir (Num (of_nat k)) allContents (Num (of_nat m)) st)
      else st)"
  by pat_completeness auto
termination
  by (relation "measure (\<lambda>(env, slug, outputDir, k, allContents, m, st). length allContents - m)")
    auto

declare chunkRun.simps [simp del]

subsection \<open>A small channel to run the program on\<close>

definition b1 :: block where
  "b1 = \<lparr>block_id = IdNum 42, block_title = Some ''Red Sky!!'',
         block_image = Some \<lparr>original_url = Some ''http://a/1'',
                              content_type = Some ''image/jpeg''\<rparr>\<rparr>"

definition b2 :: block where
  "b2 = \<lparr>block_id = IdNum 7, block_title = None,
         block_image = Some \<lparr>original_url = Some ''http://a/2'',
                              content_type = Some ''image/png''\<rparr>\<rparr>"

definition b3 :: block where
  "b3 = \<lparr>block_id = IdNum 8, block_title = Some ''note'', block_image = None\<rparr>"

definition b4 :: block where
  "b4 = \<lparr>block_id = IdStr ''x9'', block_title = Some [],
         block_image = Some \<lparr>original_url = Some ''http://a/4'',
                              content_type = Some ''image/x-unknown''\<rparr>\<rparr>"

definition frog_summary :: summary where
  "frog_summary = \<lparr>chan_title = ''Frog'', chan_length = 4\<rparr>"

definition frog_page :: page where
  "frog_page = \<lparr>contents = [b1, b2, b3, b4]\<rparr>"

text \<open>The channel \<open>frog\<close> has the four blocks above on one page; the image of \<open>b2\<close> cannot
  be fetched. The channel \<open>void\<close> is empty. The channel \<open>torn\<close> announces 250 blocks and
  its second page fails. The channel \<open>rent\<close> announces 250 blocks, its second and third
  pages fail, each with its own error. The answer for a later page arrives earlier.\<close>

definition demo_env :: env where
  "demo_env =
     \<lparr>getThumb_resp = (\<lambda>s. if s = ''frog'' then Inr frog_summary
                           else if s = ''void'' then Inr \<lparr>chan_title = ''Void'', chan_length = 0\<rparr>
                           else if s = ''torn'' then Inr \<lparr>chan_title = ''Torn'', chan_length = 250\<rparr>
                           else if s = ''rent'' then Inr \<lparr>chan_title = ''Rent'', chan_length = 250\<rparr>
                           else Inl ''Request failed with status code 404''),
      getPage_resp = (\<lambda>s p per. if s = ''frog'' \<and> p = 1 then Inr frog_page
                                 else if s = ''torn'' \<and> p \<noteq> 2 then Inr \<lparr>contents = [b1]\<rparr>
                                 else if s = ''rent'' \<and> p = 1 then Inr \<lparr>contents = [b1]\<rparr>
                                 else if s = ''rent'' \<and> p = 3 then Inl ''timeout of 30000ms exceeded''
                                 else Inl ''Request failed with status code 500''),
      page_arrival = (\<lambda>s p. 10 - p),
      mkdir_resp = (\<lambda>i d. None),
      get_resp = (\<lambda>i u. if u = ''http://a/2'' then Inl ''timeout of 30000ms exceeded''
                         else Inr [1, 2, 3]),
      writeFile_resp = (\<lambda>i p d. None),
      slugify = (\<lambda>t. if t = ''Red Sky!!'' then Inr ''red-sky'' else Inr t),
      extension = (\<lambda>ct. if ct = Some ''image/jpeg'' then Some ''jpg''
                         else if ct = Some ''image/png'' then Some ''png'' else None),
      path_join = (\<lambda>a b. a @ ''/'' @ b),
      path_resolve = (\<lambda>p. ''/home/u/'' @ p)\<rparr>"

text \<open>The same world with a directory that cannot be made, with a \<open>slugify\<close> that
  throws, and with a disk that is full; and the options of a first block.\<close>

definition env_no_mkdir :: env where
  "env_no_mkdir = demo_env\<lparr>mkdir_resp := (\<lambda>i d. Some ''EACCES: permission denied'')\<rparr>"

definition env_no_slug :: env where
  "env_no_slug = demo_env\<lparr>slugify := (\<lambda>t. Inl ''slugify: string argument expected'')\<rparr>"

definition env_no_write :: env where
  "env_no_write =
     demo_env\<lparr>writeFile_resp := (\<lambda>i p d. Some ''ENOSPC: no space left on device'')\<rparr>"

definition opts1 :: options where
  "opts1 = \<lparr>opt_slug = ''frog'', opt_outputDir = ''/o'', opt_index = Num 1\<rparr>"

section \<open>Properties\<close>

subsection \<open>downloadBlock\<close>

lemma image_url_None_iff:
  "image_url b = None \<longleftrightarrow>
     block_image b = None \<or>
     (\<exists>im. block_image b = Some im \<and> (original_url im = None \<or> original_url im = Some []))"
  by (auto simp: image_url_def split: option.splits)

text \<open>
  C7. A block with no usable image URL (no image, no original URL, or an empty one) is
  skipped at once: \<open>downloadBlock\<close> returns the "no-image" object and the only event of
  the call is its own "Download" line; it sends no request and touches no file.
\<close>

theorem skip_without_image:
  assumes "image_url b = None"
  shows "downloadBlock env b opts =
           (Inr \<lparr>success = False, reason = Some ''no-image'', filepath = None\<rparr>,
            [Download (opt_index opts) b])
         \<and> (\<forall>ev \<in> set (snd (downloadBlock env b opts)). \<not> network_event ev \<and> \<not> fs_event ev)"
  using assms by (simp add: downloadBlock_def)

theorem skip_without_image_witness:
  "image_url b3 = None
   \<and> downloadBlock demo_env b3 \<lparr>opt_slug = ''frog'', opt_outputDir = ''/o'', opt_index = Num 3\<rparr> =
       (Inr \<lparr>success = False, reason = Some ''no-image'', filepath = None\<rparr>, [Download (Num 3) b3])"
proof -
  have h: "image_url b3 = None" by (simp add: image_url_def b3_def)
  from skip_without_image
         [OF h, of demo_env "\<lparr>opt_slug = ''frog'', opt_outputDir = ''/o'', opt_index = Num 3\<rparr>"]
  show ?thesis using h by simp
qed

lemma show_int_42: "show_int 42 = ''42''"
  by (simp add: show_int_def digits.simps)

lemma show_int_7: "show_int 7 = ''7''"
  by (simp add: show_int_def digits.simps)

text \<open>
  C8. Filename derivation. The slug of a title and the extension of a content type come
  from the libraries \<open>slugify\<close> and \<open>mime-types\<close>, whose answers are hypotheses here: when
  they give \<open>red-sky\<close>, \<open>jpg\<close> and \<open>png\<close>, block 42 titled "Red Sky!!" of type image/jpeg
  gets the name \<open>42_red-sky.jpg\<close> and block 7 with no title of type image/png gets
  \<open>7_7.png\<close>. When the content type is not recognised the extension is \<open>bin\<close>.
\<close>

theorem filename_derivation:
  assumes "slugify env ''Red Sky!!'' = Inr ''red-sky''"
    and "extension env (Some ''image/jpeg'') = Some ''jpg''"
    and "extension env (Some ''image/png'') = Some ''png''"
  shows "block_filename env
           \<lparr>block_id = IdNum 42, block_title = Some ''Red Sky!!'',
            block_image = Some \<lparr>original_url = u, content_type = Some ''image/jpeg''\<rparr>\<rparr>
           = Inr ''42_red-sky.jpg''
         \<and> block_filename env
             \<lparr>block_id = IdNum 7, block_title = None,
              block_image = Some \<lparr>original_url = u', content_type = Some ''image/png''\<rparr>\<rparr>
           = Inr ''7_7.png''
         \<and> (\<forall>b im t. block_image b = Some im \<and> extension env (content_type im) = None
                \<and> slug_title env b = Inr t
              \<longrightarrow> block_filename env b = Inr (show_ident (block_id b) @ ''_'' @ t @ ''.bin''))"
  using assms
  by (simp add: block_filename_def slug_title_def file_ext_def show_int_42 show_int_7)

theorem filename_derivation_witness:
  "slugify demo_env ''Red Sky!!'' = Inr ''red-sky''
   \<and> extension demo_env (Some ''image/jpeg'') = Some ''jpg''
   \<and> extension demo_env (Some ''image/png'') = Some ''png''
   \<and> block_filename demo_env b1 = Inr ''42_red-sky.jpg''
   \<and> block_filename demo_env b2 = Inr ''7_7.png''
   \<and> block_filename demo_env b4 = Inr ''x9_x9.bin''"
proof -
  have h1: "slugify demo_env ''Red Sky!!'' = Inr ''red-sky''"
    and h2: "extension demo_env (Some ''image/jpeg'') = Some ''jpg''"
    and h3: "extension demo_env (Some ''image/png'') = Some ''png''"
    by (simp_all add: demo_env_def)
  have h4: "block_image b4 =
              Some \<lparr>original_url = Some ''http://a/4'', content_type = Some ''image/x-unknown''\<rparr>
            \<and> extension demo_env
                (content_type
                   \<lparr>original_url = Some ''http://a/4'', content_type = Some ''image/x-unknown''\<rparr>)
                = None
            \<and> slug_title demo_env b4 = Inr ''x9''"
    by (simp add: b4_def demo_env_def slug_title_def)
  from filename_derivation [OF h1 h2 h3, of "Some ''http://a/1''" "Some ''http://a/2''"] h4
  have "block_filename demo_env b1 = Inr ''42_red-sky.jpg''"
    and "block_filename demo_env b2 = Inr ''7_7.png''"
    and "block_filename demo_env b4 = Inr (show_ident (block_id b4) @ ''_'' @ ''x9'' @ ''.bin'')"
    unfolding b1_def b2_def by blast+
  then show ?thesis using h1 h2 h3 by (simp add: b4_def)
qed

subsection \<open>The loop on an integer chunk size, and the joins\<close>

lemma trunc_of_nat [simp]: "trunc (of_nat m) = int m"
  by (simp add: trunc_def)

lemma slice_nat:
  "slice xs (Num (of_nat m)) (js_add (Num (of_nat m)) (Num (of_nat k))) = take k (drop m xs)"
proof -
  have "trunc (of_nat m + of_nat k) = int (m + k)"
    using trunc_of_nat [of "m + k"] by simp
  then have "toIntegerOrInfinity (js_add (Num (of_nat m)) (Num (of_nat k))) = FinI (int (m + k))"
    by simp
  then have "slice xs (Num (of_nat m)) (js_add (Num (of_nat m)) (Num (of_nat k)))
               = take (min (m + k) (length xs) - min m (length xs)) (drop (min m (length xs)) xs)"
    by (simp add: slice_def Let_def nat_add_distrib)
  also have "\<dots> = take k (drop m xs)"
    by (cases "m < length xs") (simp_all add: min_def)
  finally show ?thesis .
qed

lemma chunkLoop_nat:
  assumes "0 < k"
  shows "chunkLoop env slug dir (Num (of_nat k)) xs (Num (of_nat m)) st
           = Some (chunkRun env slug dir k xs m st)"
  using assms
proof (induction env slug dir k xs m st rule: chunkRun.induct)
  case (1 env slug dir k xs m st)
  show ?case
  proof (cases "m < length xs")
    case True
    with 1 have "chunkLoop env slug dir (Num (of_nat k)) xs (Num (of_nat (m + k)))
             (chunkStep env slug dir (Num (of_nat k)) xs (Num (of_nat m)) st)
           = Some (chunkRun env slug dir k xs (m + k)
                    (chunkStep env slug dir (Num (of_nat k)) xs (Num (of_nat m)) st))"
      by simp
    with True 1(2) show ?thesis
      by (subst chunkLoop.simps, subst chunkRun.simps) simp
  next
    case False
    then show ?thesis
      by (subst chunkLoop.simps, subst chunkRun.simps) simp
  qed
qed

lemma chunkRun_invariant:
  assumes "0 < k" and "I m st"
    and "\<And>m st. I m st \<Longrightarrow> m < length xs \<Longrightarrow>
           I (m + k) (chunkStep env slug dir (Num (of_nat k)) xs (Num (of_nat m)) st)"
  shows "\<exists>m'. length xs \<le> m' \<and> I m' (chunkRun env slug dir k xs m st)"
  using assms
proof (induction env slug dir k xs m st rule: chunkRun.induct)
  case (1 env slug dir k xs m st)
  show ?case
  proof (cases "m < length xs")
    case True
    have "I (m + k) (chunkStep env slug dir (Num (of_nat k)) xs (Num (of_nat m)) st)"
      using 1(3,4) True by blast
    with 1(1) [OF _ 1(2)] True 1(2,4)
    have "\<exists>m'. length xs \<le> m' \<and> I m' (chunkRun env slug dir k xs (m + k)
            (chunkStep env slug dir (Num (of_nat k)) xs (Num (of_nat m)) st))"
      by blast
    with True 1(2) show ?thesis
      by (subst chunkRun.simps) simp
  next
    case False
    with 1(3) show ?thesis
      by (subst chunkRun.simps) (auto intro: exI [of _ m])
  qed
qed

lemma first_rejection_None:
  "first_rejection rs = None \<longleftrightarrow> map snd rs = map Inr (fulfilled_values rs)"
proof (induction rs rule: first_rejection.induct)
  case 1
  then show ?case by simp
next
  case (2 t x rs)
  then show ?case by simp
next
  case (3 t e rs)
  show ?case
    by (auto split: option.splits)
qed

lemma fulfilled_values_Inr: "map snd rs = map Inr xs \<Longrightarrow> fulfilled_values rs = xs"
proof (induction rs arbitrary: xs rule: fulfilled_values.induct)
  case 1
  then show ?case by simp
next
  case (2 t x rs)
  then show ?case by (cases xs) auto
next
  case (3 t e rs)
  then show ?case by (cases xs) auto
qed

lemma first_rejection_Some: "first_rejection rs = Some r \<Longrightarrow> (fst r, Inl (snd r)) \<in> set rs"
proof (induction rs arbitrary: r rule: first_rejection.induct)
  case 1
  then show ?case by simp
next
  case (2 t x rs)
  then show ?case by simp
next
  case (3 t e rs)
  then show ?case
    by (cases "first_rejection rs") (auto split: if_splits)
qed

text \<open>No failure arrives before the one \<open>first_rejection\<close> gives.\<close>

lemma first_rejection_least:
  "first_rejection rs = Some r \<Longrightarrow> (t, Inl e) \<in> set rs \<Longrightarrow> fst r \<le> t"
proof (induction rs arbitrary: r rule: first_rejection.induct)
  case 1
  then show ?case by simp
next
  case (2 t' x rs)
  then show ?case by simp
next
  case (3 t' e' rs)
  show ?case
  proof (cases "first_rejection rs")
    case None
    have "\<not> (t, Inl e) \<in> set rs"
    proof
      assume "(t, Inl e) \<in> set rs"
      then have "Inl e \<in> set (map snd rs)" by force
      with None show False by (auto simp: first_rejection_None)
    qed
    with 3(2,3) None show ?thesis by auto
  next
    case (Some r')
    with 3 show ?thesis by (auto split: if_splits)
  qed
qed

lemma first_rejection_exists: "(t, Inl e) \<in> set rs \<Longrightarrow> \<exists>r. first_rejection rs = Some r"
  by (induction rs rule: first_rejection.induct) (auto split: option.splits)

lemma promise_all_Inr_iff: "promise_all rs = Inr xs \<longleftrightarrow> map snd rs = map Inr xs"
proof
  assume "promise_all rs = Inr xs"
  then have "first_rejection rs = None" and "fulfilled_values rs = xs"
    by (auto simp: promise_all_def split: option.splits)
  then show "map snd rs = map Inr xs"
    using first_rejection_None [of rs] by simp
next
  assume xs: "map snd rs = map Inr xs"
  then have "fulfilled_values rs = xs" by (rule fulfilled_values_Inr)
  with xs have "first_rejection rs = None"
    by (simp add: first_rejection_None)
  with \<open>fulfilled_values rs = xs\<close> show "promise_all rs = Inr xs"
    by (simp add: promise_all_def)
qed

lemma promise_all_Inl: "promise_all rs = Inl e \<Longrightarrow> Inl e \<in> snd ` set rs"
proof -
  assume "promise_all rs = Inl e"
  then obtain r where "first_rejection rs = Some r" and "snd r = e"
    by (auto simp: promise_all_def split: option.splits)
  then have "(fst r, Inl e) \<in> set rs"
    using first_rejection_Some by blast
  then show ?thesis by force
qed

lemma promise_all_fails: "Inl e \<in> snd ` set rs \<Longrightarrow> \<exists>e'. promise_all rs = Inl e'"
proof -
  assume "Inl e \<in> snd ` set rs"
  then obtain t where "(t, Inl e) \<in> set rs" by force
  then obtain r where "first_rejection rs = Some r"
    using first_rejection_exists by blast
  then show ?thesis by (simp add: promise_all_def)
qed

lemma pagePromises_results:
  "map snd (pagePromises env slug ps) = map (\<lambda>p. getPage_resp env slug p PER_PAGE) ps"
  by (simp add: pagePromises_def comp_def)

text \<open>The join of the page promises is fulfilled exactly when every page is, with the pages
  in the order of their numbers, whatever the times of arrival.\<close>

lemma pages_fulfilled_iff:
  "promise_all (pagePromises env slug ps) = Inr pages
     \<longleftrightarrow> map (\<lambda>p. getPage_resp env slug p PER_PAGE) ps = map Inr pages"
  by (simp only: promise_all_Inr_iff pagePromises_results)

lemma downloadBlock_events:
  "\<exists>rest. snd (downloadBlock env b opts) = Download (opt_index opts) b # rest
          \<and> (\<forall>e \<in> set rest. io_event e)"
  by (auto simp: downloadBlock_def downloadBlock_try_def Let_def split: option.splits sum.splits prod.splits)

lemma downloadBlock_fulfilled: "\<exists>v. fst (downloadBlock env b opts) = Inr v"
  by (auto simp: downloadBlock_def split: option.splits sum.splits prod.splits)

subsection \<open>Input validation and the empty channel\<close>

text \<open>
  C1, as amended. A chunk size below 1 or above 50 (0, a negative value, a value greater
  than 50) makes \<open>downloadChannel\<close> throw before any request is sent: the run has no
  event at all. The check of line 117 compares only; it does not ask for an integer.
\<close>

theorem chunk_size_out_of_range:
  assumes "js_less chunkSize (Num 1) \<or> js_greater chunkSize (Num 50)"
  shows "\<exists>e. downloadChannel env slug outputDir chunkSize = Some (Inl e, [])"
  using assms by (simp add: downloadChannel_def)

theorem chunk_size_out_of_range_witness:
  "(js_less (Num 0) (Num 1) \<or> js_greater (Num 0) (Num 50))
   \<and> downloadChannel demo_env ''frog'' ''out'' (Num 0)
       = Some (Inl ''Chunk size must be between 1 and 50'', [])"
proof -
  have h: "js_less (Num 0) (Num 1) \<or> js_greater (Num 0) (Num 50)" by simp
  from chunk_size_out_of_range [OF h, of demo_env "''frog''" "''out''"]
  show ?thesis using h by (simp add: downloadChannel_def)
qed

text \<open>
  C1, as stated, fails on a chunk size that is not an integer: 2.5 passes the check of
  line 117, the run sends its requests and returns normally.
\<close>

theorem fractional_chunk_size_counterexample:
  "map_option fst (downloadChannel demo_env ''frog'' ''out'' (Num (5 / 2))) = Some (Inr ())
   \<and> map_option (filter network_event \<circ> snd)
         (downloadChannel demo_env ''frog'' ''out'' (Num (5 / 2)))
       = Some [FetchThumb ''frog'', FetchPage ''frog'' 1 100, FetchImage ''http://a/1'',
               FetchImage ''http://a/2'', FetchImage ''http://a/4'']"
  by code_simp

text \<open>
  \<open>NaN\<close> (what \<open>-c abc\<close> gives) passes the check of line 117 as well, since every
  comparison with \<open>NaN\<close> is false. The loop then runs once on an empty chunk and the run
  ends normally with nothing downloaded.
\<close>

lemma nan_chunk_size_run:
  "downloadChannel demo_env ''frog'' ''out'' NaN
     = Some (Inr (), [FetchThumb ''frog'', FetchPage ''frog'' 1 100, Progress 0 4 0, Summary 0 0])"
  by code_simp

text \<open>
  C5. When the summary reports a length of zero, the run is the summary request and the
  "nothing to download" line: no page is fetched, no block is downloaded, and
  \<open>downloadChannel\<close> returns normally.
\<close>

theorem empty_channel:
  assumes "slug \<noteq> []"
    and "\<not> js_less chunkSize (Num 1)" and "\<not> js_greater chunkSize (Num 50)"
    and "getThumb_resp env slug = Inr s" and "chan_length s = 0"
  shows "downloadChannel env slug outputDir chunkSize
           = Some (Inr (), [FetchThumb slug, EmptyChannel])"
  using assms by (simp add: downloadChannel_def)

theorem empty_channel_witness:
  "''void'' \<noteq> [] \<and> \<not> js_less (Num 10) (Num 1) \<and> \<not> js_greater (Num 10) (Num 50)
   \<and> getThumb_resp demo_env ''void'' = Inr \<lparr>chan_title = ''Void'', chan_length = 0\<rparr>
   \<and> chan_length \<lparr>chan_title = ''Void'', chan_length = 0\<rparr> = 0
   \<and> downloadChannel demo_env ''void'' ''out'' (Num 10)
       = Some (Inr (), [FetchThumb ''void'', EmptyChannel])"
proof -
  have h1: "''void'' \<noteq> []" by simp
  have h2: "\<not> js_less (Num 10) (Num 1)" by simp
  have h3: "\<not> js_greater (Num 10) (Num 50)" by (simp add: js_greater_def)
  have h4: "getThumb_resp demo_env ''void'' = Inr \<lparr>chan_title = ''Void'', chan_length = 0\<rparr>"
    by (simp add: demo_env_def)
  have h5: "chan_length \<lparr>chan_title = ''Void'', chan_length = 0\<rparr> = 0" by simp
  from empty_channel [OF h1 h2 h3 h4 h5, of "''out''"]
  show ?thesis using h1 h2 h3 h4 h5 by simp
qed

subsection \<open>Pages\<close>

lemma pageNumbers_upt: "pageNumbers len = [1..<Suc (nat (totalPages len))]"
  by (simp add: pageNumbers_def map_Suc_upt del: upt_Suc)

lemma totalPages_bounds:
  "int PER_PAGE * (totalPages len - 1) < len \<and> len \<le> int PER_PAGE * totalPages len"
proof -
  let ?x = "rat_of_int len / 100"
  have lo: "of_int \<lceil>?x\<rceil> - 1 < ?x" and hi: "?x \<le> of_int \<lceil>?x\<rceil>"
    using ceiling_correct [of ?x] by simp_all
  from lo have "rat_of_int (100 * (\<lceil>?x\<rceil> - 1)) < rat_of_int len"
    by (simp add: field_simps)
  then have 1: "100 * (\<lceil>?x\<rceil> - 1) < len"
    by (simp only: of_int_less_iff)
  have "rat_of_int len = 100 * ?x" by simp
  with hi have "rat_of_int len \<le> 100 * rat_of_int \<lceil>?x\<rceil>" by linarith
  then have "rat_of_int len \<le> rat_of_int (100 * \<lceil>?x\<rceil>)" by simp
  then have 2: "len \<le> 100 * \<lceil>?x\<rceil>"
    by (simp only: of_int_le_iff)
  from 1 2 show ?thesis
    by (simp add: totalPages_def PER_PAGE_def)
qed

lemma totalPages_pos: "0 < len \<Longrightarrow> 0 < totalPages len"
  using totalPages_bounds [of len] by (simp add: PER_PAGE_def) 

lemma no_block_event_pages:
  "\<forall>ev \<in> set (FetchThumb slug # map (\<lambda>p. FetchPage slug p per) ps @ [Fatal e]). \<not> block_event ev"
  by auto

text \<open>
  C4. When the fetch of any page fails, the run fails: \<open>downloadChannel\<close> throws the error
  of a failed page, and the run holds no event of \<open>downloadBlock\<close> (no call, no directory,
  no image request, no file), whatever the other pages answered.
\<close>

theorem page_failure_is_fatal:
  assumes "slug \<noteq> []"
    and "\<not> js_less chunkSize (Num 1)" and "\<not> js_greater chunkSize (Num 50)"
    and "getThumb_resp env slug = Inr s" and "chan_length s \<noteq> 0"
    and "p \<in> set (pageNumbers (chan_length s))"
    and "getPage_resp env slug p PER_PAGE = Inl e"
  shows "\<exists>e' tr. downloadChannel env slug outputDir chunkSize = Some (Inl e', tr)
           \<and> (\<forall>ev \<in> set tr. \<not> block_event ev)
           \<and> (\<exists>q \<in> set (pageNumbers (chan_length s)). getPage_resp env slug q PER_PAGE = Inl e')"
proof -
  let ?ps = "pageNumbers (chan_length s)"
  let ?rs = "pagePromises env slug ?ps"
  from assms(6,7) have "Inl e \<in> snd ` set ?rs"
    by (force simp: pagePromises_def)
  then obtain e' where e': "promise_all ?rs = Inl e'"
    using promise_all_fails by blast
  then have "Inl e' \<in> snd ` set ?rs" by (rule promise_all_Inl)
  then have q: "\<exists>q \<in> set ?ps. getPage_resp env slug q PER_PAGE = Inl e'"
    by (auto simp: pagePromises_def)
  have "downloadChannel env slug outputDir chunkSize
          = Some (Inl e', FetchThumb slug # map (\<lambda>p. FetchPage slug p PER_PAGE) ?ps @ [Fatal e'])"
    using assms(1-5) e' by (simp add: downloadChannel_def Let_def)
  with q no_block_event_pages [of slug PER_PAGE ?ps e'] show ?thesis by blast
qed

lemma pageNumbers_250: "pageNumbers 250 = [1, 2, 3]"
  by code_simp

theorem page_failure_is_fatal_witness:
  "''torn'' \<noteq> [] \<and> \<not> js_less (Num 3) (Num 1) \<and> \<not> js_greater (Num 3) (Num 50)
   \<and> getThumb_resp demo_env ''torn'' = Inr \<lparr>chan_title = ''Torn'', chan_length = 250\<rparr>
   \<and> chan_length \<lparr>chan_title = ''Torn'', chan_length = 250\<rparr> \<noteq> 0
   \<and> 2 \<in> set (pageNumbers (chan_length \<lparr>chan_title = ''Torn'', chan_length = 250\<rparr>))
   \<and> getPage_resp demo_env ''torn'' 2 PER_PAGE = Inl ''Request failed with status code 500''
   \<and> (\<exists>e' tr. downloadChannel demo_env ''torn'' ''out'' (Num 3) = Some (Inl e', tr)
          \<and> (\<forall>ev \<in> set tr. \<not> block_event ev))"
proof -
  have h1: "''torn'' \<noteq> []" by simp
  have h2: "\<not> js_less (Num 3) (Num 1)" by simp
  have h3: "\<not> js_greater (Num 3) (Num 50)" by (simp add: js_greater_def)
  have h4: "getThumb_resp demo_env ''torn'' = Inr \<lparr>chan_title = ''Torn'', chan_length = 250\<rparr>"
    by (simp add: demo_env_def)
  have h5: "chan_length \<lparr>chan_title = ''Torn'', chan_length = 250\<rparr> \<noteq> 0" by simp
  have h6: "2 \<in> set (pageNumbers (chan_length \<lparr>chan_title = ''Torn'', chan_length = 250\<rparr>))"
    by (simp add: pageNumbers_250)
  have h7: "getPage_resp demo_env ''torn'' 2 PER_PAGE = Inl ''Request failed with status code 500''"
    by (simp add: demo_env_def)
  from page_failure_is_fatal [OF h1 h2 h3 h4 h5 h6 h7, of "''out''"]
  show ?thesis using h1 h2 h3 h4 h5 h6 h7 by blast
qed

subsection \<open>The events and the result of one call\<close>

lemma downloads_append: "downloads (tr @ tr') = downloads tr @ downloads tr'"
  by (simp add: downloads_def)

lemma downloads_io: "\<forall>e \<in> set evs. io_event e \<Longrightarrow> downloads evs = []"
proof (induction evs)
  case Nil
  then show ?case by (simp add: downloads_def)
next
  case (Cons e evs)
  then show ?case by (cases e) (simp_all add: downloads_def)
qed

lemma chunk_obs_io: "\<forall>e \<in> set evs. io_event e \<Longrightarrow> fold chunk_obs evs s = s"
proof (induction evs arbitrary: s)
  case Nil
  then show ?case by simp
next
  case (Cons e evs)
  then show ?case by (cases e) simp_all
qed

lemma io_event_block_event: "io_event e \<Longrightarrow> block_event e"
  by (cases e) simp_all

lemma block_event_quiet: "block_event e \<Longrightarrow> counters_of e = None \<and> \<not> page_event e"
  by (cases e) simp_all

lemma downloadBlock_downloads: "downloads (snd (downloadBlock env b opts)) = [(opt_index opts, b)]"
proof -
  obtain rest where "snd (downloadBlock env b opts) = Download (opt_index opts) b # rest"
    and "\<forall>e \<in> set rest. io_event e"
    using downloadBlock_events by blast
  then show ?thesis
    using downloads_io [of rest] downloads_append [of "[Download (opt_index opts) b]" rest]
    by (simp add: downloads_def)
qed

lemma downloadBlock_chunk_obs:
  "fold chunk_obs (snd (downloadBlock env b opts)) s = (fst s, snd s @ [b])"
proof -
  obtain rest where "snd (downloadBlock env b opts) = Download (opt_index opts) b # rest"
    and "\<forall>e \<in> set rest. io_event e"
    using downloadBlock_events by blast
  then show ?thesis
    using chunk_obs_io [of rest] by simp
qed

lemma downloadBlock_block_events: "\<forall>e \<in> set (snd (downloadBlock env b opts)). block_event e"
proof -
  obtain rest where "snd (downloadBlock env b opts) = Download (opt_index opts) b # rest"
    and "\<forall>e \<in> set rest. io_event e"
    using downloadBlock_events by blast
  then show ?thesis
    by (auto intro: io_event_block_event)
qed

lemma downloadBlock_no_image:
  "image_url b = None \<Longrightarrow>
     fst (downloadBlock env b opts) = Inr \<lparr>success = False, reason = Some ''no-image'', filepath = None\<rparr>"
  by (simp add: downloadBlock_def)

lemma downloadBlock_caught:
  "image_url b = Some u \<Longrightarrow> downloadBlock_try env b opts u = (Inl e, evs) \<Longrightarrow>
     fst (downloadBlock env b opts) = Inr \<lparr>success = False, reason = Some e, filepath = None\<rparr>"
  by (simp add: downloadBlock_def)

subsection \<open>The events and the results of one chunk\<close>

lemma block_index_nat:
  "js_add (js_add (Num (of_nat m)) (Num (of_nat idx))) (Num 1) = Num (of_nat (m + idx + 1))"
  by simp

lemma settleChunk_alt:
  "settleChunk env slug dir (Num (of_nat m)) chunk =
     map (\<lambda>(idx, b). downloadBlock env b
            \<lparr>opt_slug = slug, opt_outputDir = dir, opt_index = Num (of_nat (m + idx + 1))\<rparr>)
         (enumerate 0 chunk)"
  by (simp only: settleChunk_def block_index_nat)

lemma calls_downloads:
  "downloads (concat (map snd (map (\<lambda>(idx, b). downloadBlock env b
            \<lparr>opt_slug = slug, opt_outputDir = dir, opt_index = Num (of_nat (m + idx + 1))\<rparr>)
         (enumerate j chunk))))
   = map (\<lambda>(i, b). (Num (of_nat i), b)) (enumerate (m + j + 1) chunk)"
proof (induction chunk arbitrary: j)
  case Nil
  then show ?case by (simp add: downloads_def)
next
  case (Cons b chunk)
  from Cons [of "Suc j"] show ?case
    by (simp add: downloads_append downloadBlock_downloads)
qed

lemma calls_chunk_obs:
  "fold chunk_obs (concat (map snd (map (\<lambda>(idx, b). downloadBlock env b
            \<lparr>opt_slug = slug, opt_outputDir = dir, opt_index = Num (of_nat (m + idx + 1))\<rparr>)
         (enumerate j chunk)))) s
   = (fst s, snd s @ chunk)"
proof (induction chunk arbitrary: j s)
  case Nil
  then show ?case by simp
next
  case (Cons b chunk)
  from Cons [of "Suc j"] show ?case
    by (simp add: downloadBlock_chunk_obs)
qed

lemma calls_no_image:
  "length (filter (\<lambda>b. image_url b = None) chunk)
     \<le> length (filter (\<lambda>r. \<not> fulfilled_ok r) (map fst (map (\<lambda>(idx, b). downloadBlock env b
            \<lparr>opt_slug = slug, opt_outputDir = dir, opt_index = Num (of_nat (m + idx + 1))\<rparr>)
         (enumerate j chunk))))"
proof (induction chunk arbitrary: j)
  case Nil
  then show ?case by simp
next
  case (Cons b chunk)
  from Cons [of "Suc j"] show ?case
    by (simp add: downloadBlock_no_image fulfilled_ok_def)
qed

lemma settleChunk_downloads:
  "downloads (concat (map snd (settleChunk env slug dir (Num (of_nat m)) chunk)))
     = map (\<lambda>(i, b). (Num (of_nat i), b)) (enumerate (m + 1) chunk)"
  using calls_downloads [of env slug dir m 0 chunk] by (simp add: settleChunk_alt)

lemma settleChunk_chunk_obs:
  "fold chunk_obs (concat (map snd (settleChunk env slug dir (Num (of_nat m)) chunk))) s
     = (fst s, snd s @ chunk)"
  using calls_chunk_obs [of env slug dir m 0 chunk s] by (simp add: settleChunk_alt)

lemma settleChunk_no_image:
  "length (filter (\<lambda>b. image_url b = None) chunk)
     \<le> length (filter (\<lambda>r. \<not> fulfilled_ok r) (map fst (settleChunk env slug dir (Num (of_nat m)) chunk)))"
  using calls_no_image [of chunk env slug dir m 0] by (simp add: settleChunk_alt)

lemma settleChunk_block_events:
  "\<forall>e \<in> set (concat (map snd (settleChunk env slug dir i chunk))). block_event e"
  using downloadBlock_block_events by (auto simp: settleChunk_def)

lemma settleChunk_length: "length (settleChunk env slug dir i chunk) = length chunk"
  by (simp add: settleChunk_def)

subsection \<open>The counters\<close>

lemma fold_countResult_failed:
  "snd (fold countResult rs c) = snd c + length (filter (\<lambda>r. \<not> fulfilled_ok r) rs)"
  by (induction rs arbitrary: c) (simp_all add: countResult_def)

lemma fold_countResult_downloaded:
  "fst (fold countResult rs c) = fst c + length (filter fulfilled_ok rs)"
  by (induction rs arbitrary: c) (simp_all add: countResult_def)

lemma fold_countResult_sum:
  "fst (fold countResult rs c) + snd (fold countResult rs c) = fst c + snd c + length rs"
  using sum_length_filter_compl [of fulfilled_ok rs]
  by (simp add: fold_countResult_failed fold_countResult_downloaded)

lemma chunkStep_nat:
  "chunkStep env slug dir (Num (of_nat k)) xs (Num (of_nat m)) st =
     (let rs = settleChunk env slug dir (Num (of_nat m)) (take k (drop m xs));
          c = fold countResult (map fst rs) (fst st, fst (snd st))
      in (fst c, snd c,
          snd (snd st) @ concat (map snd rs) @ [Progress (fst c) (length xs) (snd c)]))"
  by (simp only: chunkStep_def slice_nat Let_def)

lemma chunkStep_nat_parts:
  fixes env slug dir k xs m st
  defines "rs \<equiv> settleChunk env slug dir (Num (of_nat m)) (take k (drop m xs))"
  defines "st' \<equiv> chunkStep env slug dir (Num (of_nat k)) xs (Num (of_nat m)) st"
  shows "fst st' = fst st + length (filter fulfilled_ok (map fst rs))"
    and "fst (snd st') = fst (snd st) + length (filter (\<lambda>r. \<not> fulfilled_ok r) (map fst rs))"
    and "fst st' + fst (snd st') = fst st + fst (snd st) + length (take k (drop m xs))"
    and "snd (snd st') = snd (snd st) @ concat (map snd rs)
                           @ [Progress (fst st') (length xs) (fst (snd st'))]"
proof -
  show "fst st' = fst st + length (filter fulfilled_ok (map fst rs))"
    unfolding st'_def rs_def chunkStep_nat Let_def
    by (simp add: fold_countResult_downloaded)
  show "fst (snd st') = fst (snd st) + length (filter (\<lambda>r. \<not> fulfilled_ok r) (map fst rs))"
    unfolding st'_def rs_def chunkStep_nat Let_def
    by (simp add: fold_countResult_failed)
  show "fst st' + fst (snd st') = fst st + fst (snd st) + length (take k (drop m xs))"
    unfolding st'_def rs_def chunkStep_nat Let_def
    using fold_countResult_sum
            [of "map fst (settleChunk env slug dir (Num (of_nat m)) (take k (drop m xs)))"
                "(fst st, fst (snd st))"]
    by (simp add: settleChunk_length)
  show "snd (snd st') = snd (snd st) @ concat (map snd rs)
                           @ [Progress (fst st') (length xs) (fst (snd st'))]"
    unfolding st'_def rs_def chunkStep_nat Let_def by simp
qed

subsection \<open>What the loop keeps true\<close>

text \<open>The counters add up to the number of blocks passed.\<close>

lemma chunkRun_counters:
  assumes "0 < k" and "fst st + fst (snd st) = min m (length xs)"
  shows "fst (chunkRun env slug dir k xs m st) + fst (snd (chunkRun env slug dir k xs m st))
           = length xs"
proof -
  let ?I = "\<lambda>(m::nat) (st::nat \<times> nat \<times> event list). fst st + fst (snd st) = min m (length xs)"
  have "\<exists>m'. length xs \<le> m' \<and> ?I m' (chunkRun env slug dir k xs m st)"
  proof (rule chunkRun_invariant [where I = ?I, OF assms])
    fix m st
    assume "?I m st" and "m < length xs"
    then show "?I (m + k) (chunkStep env slug dir (Num (of_nat k)) xs (Num (of_nat m)) st)"
      by (simp add: chunkStep_nat_parts(3))
  qed
  then show ?thesis by auto
qed

text \<open>The failed counter holds at least the blocks with no image.\<close>

lemma chunkRun_no_image:
  assumes "0 < k"
    and "length (filter (\<lambda>b. image_url b = None) (take m xs)) \<le> fst (snd st)"
  shows "length (filter (\<lambda>b. image_url b = None) xs)
           \<le> fst (snd (chunkRun env slug dir k xs m st))"
proof -
  let ?I = "\<lambda>(m::nat) (st::nat \<times> nat \<times> event list). length (filter (\<lambda>b. image_url b = None) (take m xs)) \<le> fst (snd st)"
  have "\<exists>m'. length xs \<le> m' \<and> ?I m' (chunkRun env slug dir k xs m st)"
  proof (rule chunkRun_invariant [where I = ?I, OF assms])
    fix m st
    assume "?I m st" and "m < length xs"
    then show "?I (m + k) (chunkStep env slug dir (Num (of_nat k)) xs (Num (of_nat m)) st)"
      using settleChunk_no_image [of "take k (drop m xs)" env slug dir m]
      by (simp add: chunkStep_nat_parts(2) take_add)
  qed
  then show ?thesis by auto
qed

text \<open>The calls of \<open>downloadBlock\<close> are the blocks passed, in order, numbered from 1.\<close>

lemma chunkRun_downloads:
  assumes "0 < k"
    and "downloads (snd (snd st)) = map (\<lambda>(i, b). (Num (of_nat i), b)) (enumerate 1 (take m xs))"
  shows "downloads (snd (snd (chunkRun env slug dir k xs m st)))
           = map (\<lambda>(i, b). (Num (of_nat i), b)) (enumerate 1 xs)"
proof -
  let ?I = "\<lambda>(m::nat) (st::nat \<times> nat \<times> event list). downloads (snd (snd st))
                     = map (\<lambda>(i, b). (Num (of_nat i), b)) (enumerate 1 (take m xs))"
  have "\<exists>m'. length xs \<le> m' \<and> ?I m' (chunkRun env slug dir k xs m st)"
  proof (rule chunkRun_invariant [where I = ?I, OF assms])
    fix m st
    assume "?I m st" and "m < length xs"
    then show "?I (m + k) (chunkStep env slug dir (Num (of_nat k)) xs (Num (of_nat m)) st)"
      by (simp add: chunkStep_nat_parts(4) downloads_append settleChunk_downloads take_add
            enumerate_append_eq downloads_def [of "[Progress _ _ _]"])
  qed
  then show ?thesis by auto
qed

text \<open>Page requests are made before the loop only.\<close>

lemma chunkRun_pages:
  assumes "0 < k"
  shows "filter page_event (snd (snd (chunkRun env slug dir k xs m st)))
           = filter page_event (snd (snd st))"
proof -
  let ?I = "\<lambda>(m'::nat) (st'::nat \<times> nat \<times> event list). filter page_event (snd (snd st')) = filter page_event (snd (snd st))"
  have "\<exists>m'. length xs \<le> m' \<and> ?I m' (chunkRun env slug dir k xs m st)"
  proof (rule chunkRun_invariant [where I = ?I, OF assms])
    show "?I m st" by simp
  next
    fix m st'
    assume "?I m st'" and "m < length xs"
    moreover have "filter page_event
                     (concat (map snd (settleChunk env slug dir (Num (of_nat m)) (take k (drop m xs)))))
                   = []"
      using settleChunk_block_events [of env slug dir "Num (of_nat m)" "take k (drop m xs)"]
        block_event_quiet
      by (simp only: filter_empty_conv) blast
    ultimately show "?I (m + k) (chunkStep env slug dir (Num (of_nat k)) xs (Num (of_nat m)) st')"
      by (simp add: chunkStep_nat_parts(4))
  qed
  then show ?thesis by auto
qed

text \<open>Each turn of the loop closes one chunk: the next \<open>k\<close> blocks.\<close>

lemma chunkStep_chunk_obs:
  "fold chunk_obs (snd (snd (chunkStep env slug dir (Num (of_nat k)) xs (Num (of_nat m)) st))) s
     = (fst (fold chunk_obs (snd (snd st)) s)
          @ [snd (fold chunk_obs (snd (snd st)) s) @ take k (drop m xs)], [])"
  by (simp add: chunkStep_nat_parts(4) settleChunk_chunk_obs)

lemma chunkRun_chunks:
  assumes "0 < k" and "fold chunk_obs (snd (snd st)) ([], []) = ([], [])"
  shows "snd (fold chunk_obs (snd (snd (chunkRun env slug dir k xs 0 st))) ([], [])) = []
         \<and> concat (chunks_seen (snd (snd (chunkRun env slug dir k xs 0 st)))) = xs
         \<and> (\<forall>c \<in> set (chunks_seen (snd (snd (chunkRun env slug dir k xs 0 st)))).
               c \<noteq> [] \<and> length c \<le> k)
         \<and> (\<forall>c \<in> set (butlast (chunks_seen (snd (snd (chunkRun env slug dir k xs 0 st))))).
               length c = k)"
proof -
  let ?I = "\<lambda>(m::nat) (st::nat \<times> nat \<times> event list).
              snd (fold chunk_obs (snd (snd st)) ([], [])) = []
              \<and> concat (chunks_seen (snd (snd st))) = take m xs
              \<and> (\<forall>c \<in> set (chunks_seen (snd (snd st))). c \<noteq> [] \<and> length c \<le> k)
              \<and> (m \<le> length xs \<longrightarrow> (\<forall>c \<in> set (chunks_seen (snd (snd st))). length c = k))
              \<and> (\<forall>c \<in> set (butlast (chunks_seen (snd (snd st)))). length c = k)"
  have "\<exists>m'. length xs \<le> m' \<and> ?I m' (chunkRun env slug dir k xs 0 st)"
  proof (rule chunkRun_invariant [where I = ?I, OF assms(1)])
    show "?I 0 st" using assms(2) by (simp add: chunks_seen_def)
  next
    fix m and st :: "nat \<times> nat \<times> event list"
    assume I: "?I m st" and m: "m < length xs"
    let ?st' = "chunkStep env slug dir (Num (of_nat k)) xs (Num (of_nat m)) st"
    let ?cs = "chunks_seen (snd (snd st))"
    from I have cur: "fold chunk_obs (snd (snd st)) ([], []) = (?cs, [])"
      by (simp add: chunks_seen_def prod_eq_iff)
    have step: "fold chunk_obs (snd (snd ?st')) ([], []) = (?cs @ [take k (drop m xs)], [])"
      by (simp add: chunkStep_chunk_obs cur)
    then have cur': "snd (fold chunk_obs (snd (snd ?st')) ([], [])) = []"
      by simp
    have seen: "chunks_seen (snd (snd ?st')) = ?cs @ [take k (drop m xs)]"
      using step by (simp add: chunks_seen_def [of "snd (snd ?st')"])
    from I m have full: "\<forall>c \<in> set ?cs. length c = k" by simp
    have "concat (chunks_seen (snd (snd ?st'))) = take (m + k) xs"
      using I by (simp add: seen take_add)
    moreover have "\<forall>c \<in> set (chunks_seen (snd (snd ?st'))). c \<noteq> [] \<and> length c \<le> k"
      using I m assms(1) by (auto simp: seen)
    moreover have "m + k \<le> length xs \<longrightarrow>
                     (\<forall>c \<in> set (chunks_seen (snd (snd ?st'))). length c = k)"
      using full by (auto simp: seen)
    moreover have "\<forall>c \<in> set (butlast (chunks_seen (snd (snd ?st')))). length c = k"
      using full by (simp add: seen)
    ultimately show "?I (m + k) ?st'" using cur' by blast
  qed
  then show ?thesis by auto
qed

text \<open>The counters shown add up to the number of calls of \<open>downloadBlock\<close> made before.\<close>

lemma counters_step:
  assumes "\<forall>j < length tr. \<forall>c. counters_of (tr ! j) = Some c
             \<longrightarrow> fst c + snd c = length (downloads (take j tr))"
    and "\<forall>e \<in> set evs. counters_of e = None"
    and "\<forall>c. counters_of ev = Some c \<longrightarrow> fst c + snd c = length (downloads (tr @ evs))"
  shows "\<forall>j < length (tr @ evs @ [ev]). \<forall>c. counters_of ((tr @ evs @ [ev]) ! j) = Some c
           \<longrightarrow> fst c + snd c = length (downloads (take j (tr @ evs @ [ev])))"
proof (intro allI impI)
  fix j c
  assume j: "j < length (tr @ evs @ [ev])"
    and c: "counters_of ((tr @ evs @ [ev]) ! j) = Some c"
  consider "j < length tr" | "length tr \<le> j" "j < length tr + length evs"
    | "j = length tr + length evs"
    using j by fastforce
  then show "fst c + snd c = length (downloads (take j (tr @ evs @ [ev])))"
  proof cases
    case 1
    with c assms(1) show ?thesis by (simp add: nth_append)
  next
    case 2
    then have "j - length tr < length evs" by arith
    with 2 have "(tr @ evs @ [ev]) ! j = evs ! (j - length tr)"
      by (simp add: nth_append)
    moreover have "evs ! (j - length tr) \<in> set evs"
      using 2 by simp
    ultimately show ?thesis using c assms(2) by simp
  next
    case 3
    then have "(tr @ evs @ [ev]) ! j = ev" and "take j (tr @ evs @ [ev]) = tr @ evs"
      by (simp_all add: nth_append)
    with c assms(3) show ?thesis by simp
  qed
qed

lemma chunkRun_progress:
  assumes "0 < k"
    and "length (downloads (snd (snd st))) = fst st + fst (snd st)"
    and "\<forall>j < length (snd (snd st)). \<forall>c. counters_of (snd (snd st) ! j) = Some c
           \<longrightarrow> fst c + snd c = length (downloads (take j (snd (snd st))))"
  shows "length (downloads (snd (snd (chunkRun env slug dir k xs m st))))
           = fst (chunkRun env slug dir k xs m st) + fst (snd (chunkRun env slug dir k xs m st))
         \<and> (\<forall>j < length (snd (snd (chunkRun env slug dir k xs m st))). \<forall>c.
               counters_of (snd (snd (chunkRun env slug dir k xs m st)) ! j) = Some c
               \<longrightarrow> fst c + snd c
                     = length (downloads (take j (snd (snd (chunkRun env slug dir k xs m st))))))"
proof -
  let ?I = "\<lambda>(m::nat) (st::nat \<times> nat \<times> event list).
              length (downloads (snd (snd st))) = fst st + fst (snd st)
              \<and> (\<forall>j < length (snd (snd st)). \<forall>c. counters_of (snd (snd st) ! j) = Some c
                    \<longrightarrow> fst c + snd c = length (downloads (take j (snd (snd st)))))"
  have "\<exists>m'. length xs \<le> m' \<and> ?I m' (chunkRun env slug dir k xs m st)"
  proof (rule chunkRun_invariant [where I = ?I, OF assms(1)])
    show "?I m st" using assms(2,3) by simp
  next
    fix m and st :: "nat \<times> nat \<times> event list"
    assume I: "?I m st" and m: "m < length xs"
    let ?st' = "chunkStep env slug dir (Num (of_nat k)) xs (Num (of_nat m)) st"
    let ?evs = "concat (map snd (settleChunk env slug dir (Num (of_nat m)) (take k (drop m xs))))"
    let ?ev = "Progress (fst ?st') (length xs) (fst (snd ?st'))"
    have tr': "snd (snd ?st') = snd (snd st) @ ?evs @ [?ev]"
      by (rule chunkStep_nat_parts(4))
    have len: "length (downloads (snd (snd st) @ ?evs)) = fst ?st' + fst (snd ?st')"
      using I by (simp add: downloads_append settleChunk_downloads chunkStep_nat_parts(3))
    have quiet: "\<forall>e \<in> set ?evs. counters_of e = None"
      using settleChunk_block_events [of env slug dir "Num (of_nat m)" "take k (drop m xs)"]
        block_event_quiet by blast
    have "\<forall>j < length (snd (snd st) @ ?evs @ [?ev]). \<forall>c.
            counters_of ((snd (snd st) @ ?evs @ [?ev]) ! j) = Some c
            \<longrightarrow> fst c + snd c = length (downloads (take j (snd (snd st) @ ?evs @ [?ev])))"
      using I quiet len by (intro counters_step) simp_all
    moreover have "length (downloads (snd (snd st) @ ?evs @ [?ev])) = fst ?st' + fst (snd ?st')"
      using len by (simp add: downloads_append downloads_def [of "[Progress _ _ _]"])
    ultimately show "?I (m + k) ?st'"
      by (simp only: tr') 
  qed
  then show ?thesis by blast
qed

subsection \<open>The loop ends\<close>

lemma chunkLoop_exit:
  "\<not> js_less i (Num (of_nat (length xs))) \<Longrightarrow> chunkLoop env slug dir c xs i st = Some st"
  by (subst chunkLoop.simps) simp

lemma chunkLoop_terminates_num:
  assumes "1 \<le> r"
  shows "\<exists>st'. chunkLoop env slug dir (Num r) xs (Num a) st = Some st'"
proof (induction "nat \<lceil>rat_of_nat (length xs) - a\<rceil>" arbitrary: a st rule: less_induct)
  case less
  show ?case
  proof (cases "a < rat_of_nat (length xs)")
    case True
    then have "0 < rat_of_nat (length xs) - a" by simp
    then have pos: "0 < \<lceil>rat_of_nat (length xs) - a\<rceil>" by (simp only: zero_less_ceiling)
    have "\<lceil>rat_of_nat (length xs) - (a + r)\<rceil> \<le> \<lceil>rat_of_nat (length xs) - a - 1\<rceil>"
      using assms by (intro ceiling_mono) simp
    then have "\<lceil>rat_of_nat (length xs) - (a + r)\<rceil> \<le> \<lceil>rat_of_nat (length xs) - a\<rceil> - 1"
      by simp
    with pos have "nat \<lceil>rat_of_nat (length xs) - (a + r)\<rceil> < nat \<lceil>rat_of_nat (length xs) - a\<rceil>"
      by linarith
    from less [OF this]
    obtain st' where "chunkLoop env slug dir (Num r) xs (Num (a + r))
                        (chunkStep env slug dir (Num r) xs (Num a) st) = Some st'"
      by blast
    with True show ?thesis
      by (subst chunkLoop.simps) (simp del: split_paired_Ex)
  next
    case False
    then show ?thesis by (simp add: chunkLoop_exit del: split_paired_Ex)
  qed
qed

text \<open>Every chunk size that passes the check of line 117 lets the loop end, from any
  finite start.\<close>

lemma chunkLoop_terminates:
  assumes "\<not> js_less c (Num 1)"
  shows "\<exists>st'. chunkLoop env slug dir c xs (Num a) st = Some st'"
proof (cases c)
  case (Num r)
  with assms have "1 \<le> r" by simp
  then have "\<exists>st'. chunkLoop env slug dir (Num r) xs (Num a) st = Some st'"
    by (rule chunkLoop_terminates_num)
  with Num show ?thesis by (simp only:)
next
  case NaN
  then show ?thesis
    by (subst chunkLoop.simps) (simp add: chunkLoop_exit del: split_paired_Ex)
next
  case PosInf
  then show ?thesis
    by (subst chunkLoop.simps) (simp add: chunkLoop_exit del: split_paired_Ex)
next
  case NegInf
  with assms show ?thesis by simp
qed

subsection \<open>The whole run\<close>

lemma downloadChannel_completes:
  assumes "slug \<noteq> []"
    and "\<not> js_less c (Num 1)" and "\<not> js_greater c (Num 50)"
    and "getThumb_resp env slug = Inr s"
    and "chan_length s = 0 \<or>
         promise_all (pagePromises env slug (pageNumbers (chan_length s)))
           = Inr pages"
  shows "\<exists>tr. downloadChannel env slug outputDir c = Some (Inr (), tr)"
proof (cases "chan_length s = 0")
  case True
  with assms(1-4) show ?thesis by (simp add: downloadChannel_def)
next
  case False
  with assms(5) have pages: "promise_all (pagePromises env slug (pageNumbers (chan_length s))) = Inr pages"
    by simp
  obtain st' where "chunkLoop env slug (path_resolve env outputDir) c (flatContents pages) (Num 0)
                      (0, 0, FetchThumb slug # map (\<lambda>p. FetchPage slug p PER_PAGE)
                                                 (pageNumbers (chan_length s))) = Some st'"
    using chunkLoop_terminates [OF assms(2)] by blast
  with assms(1-4) False pages show ?thesis
    by (simp add: downloadChannel_def Let_def)
qed

lemma downloadChannel_fails_only:
  assumes "downloadChannel env slug outputDir c = Some (Inl e, tr)"
  shows "slug = [] \<or> js_less c (Num 1) \<or> js_greater c (Num 50)
         \<or> getThumb_resp env slug = Inl e
         \<or> (\<exists>s. getThumb_resp env slug = Inr s
                \<and> promise_all (pagePromises env slug (pageNumbers (chan_length s))) = Inl e)"
  using assms
  by (auto simp: downloadChannel_def Let_def split: if_splits sum.splits)

lemma valid_chunk_nat:
  "1 \<le> k \<Longrightarrow> k \<le> 50 \<Longrightarrow>
     \<not> js_less (Num (of_nat k)) (Num 1) \<and> \<not> js_greater (Num (of_nat k)) (Num 50)"
proof -
  assume "1 \<le> k" and "k \<le> 50"
  then have "rat_of_nat 1 \<le> rat_of_nat k" and "rat_of_nat k \<le> rat_of_nat 50"
    by (simp_all only: of_nat_le_iff)
  then show ?thesis by (simp add: js_greater_def not_less)
qed

lemma downloadChannel_run:
  assumes "slug \<noteq> []" and "1 \<le> k" and "k \<le> 50"
    and "getThumb_resp env slug = Inr s" and "chan_length s \<noteq> 0"
    and "promise_all (pagePromises env slug (pageNumbers (chan_length s)))
           = Inr pages"
  shows "downloadChannel env slug outputDir (Num (of_nat k)) =
           Some (Inr (),
             snd (snd (chunkRun env slug (path_resolve env outputDir) k (flatContents pages) 0
                        (0, 0, FetchThumb slug # map (\<lambda>p. FetchPage slug p PER_PAGE)
                                                   (pageNumbers (chan_length s)))))
             @ [Summary
                  (fst (chunkRun env slug (path_resolve env outputDir) k (flatContents pages) 0
                        (0, 0, FetchThumb slug # map (\<lambda>p. FetchPage slug p PER_PAGE)
                                                   (pageNumbers (chan_length s)))))
                  (fst (snd (chunkRun env slug (path_resolve env outputDir) k (flatContents pages) 0
                        (0, 0, FetchThumb slug # map (\<lambda>p. FetchPage slug p PER_PAGE)
                                                   (pageNumbers (chan_length s))))))])"
proof -
  have loop: "chunkLoop env slug dir (Num (of_nat k)) xs (Num 0) st
                = Some (chunkRun env slug dir k xs 0 st)" for dir xs st
    using chunkLoop_nat [of k env slug dir xs 0 st] assms(2) by simp
  from valid_chunk_nat [OF assms(2,3)] assms(1,4,5,6) show ?thesis
    by (simp only: downloadChannel_def Let_def loop) simp
qed

lemma start_events:
  "downloads (FetchThumb slug # map (\<lambda>p. FetchPage slug p per) ps) = []"
  "fold chunk_obs (FetchThumb slug # map (\<lambda>p. FetchPage slug p per) ps) s = s"
  "filter page_event (FetchThumb slug # map (\<lambda>p. FetchPage slug p per) ps)
     = map (\<lambda>p. FetchPage slug p per) ps"
  "\<forall>e \<in> set (FetchThumb slug # map (\<lambda>p. FetchPage slug p per) ps). counters_of e = None"
  by (induction ps) (auto simp: downloads_def)

subsection \<open>The run on the channel \<open>frog\<close>\<close>

lemma pageNumbers_4: "pageNumbers 4 = [1]"
  by code_simp

lemma frog_run:
  "''frog'' \<noteq> []" "(1::nat) \<le> 2" "(2::nat) \<le> 50"
  "getThumb_resp demo_env ''frog'' = Inr frog_summary"
  "chan_length frog_summary \<noteq> 0"
  "0 < chan_length frog_summary"
  "promise_all (pagePromises demo_env ''frog'' (pageNumbers (chan_length frog_summary)))
     = Inr [frog_page]"
  by (simp_all add: demo_env_def frog_summary_def pageNumbers_4 promise_all_Inr_iff
        pagePromises_results)

lemma frog_valid: "\<not> js_less (Num 2) (Num 1)" "\<not> js_greater (Num 2) (Num 50)"
  by (simp_all add: js_greater_def)

subsection \<open>Errors of a block\<close>

lemma downloadBlock_mkdir_fails:
  assumes "image_url b = Some u"
    and "mkdir_resp env (opt_index opts) (path_join env (opt_outputDir opts) (opt_slug opts))
           = Some e"
  shows "fst (downloadBlock env b opts) = Inr \<lparr>success = False, reason = Some e, filepath = None\<rparr>"
  using assms by (simp add: downloadBlock_def downloadBlock_try_def)

lemma downloadBlock_fetch_fails:
  assumes "image_url b = Some u"
    and "mkdir_resp env (opt_index opts) (path_join env (opt_outputDir opts) (opt_slug opts))
           = None"
    and "get_resp env (opt_index opts) u = Inl e"
  shows "fst (downloadBlock env b opts) = Inr \<lparr>success = False, reason = Some e, filepath = None\<rparr>"
  using assms by (simp add: downloadBlock_def downloadBlock_try_def)

lemma downloadBlock_name_fails:
  assumes "image_url b = Some u"
    and "mkdir_resp env (opt_index opts) (path_join env (opt_outputDir opts) (opt_slug opts))
           = None"
    and "get_resp env (opt_index opts) u = Inr data"
    and "block_title b = Some t" and "t \<noteq> []" and "slugify env t = Inl e"
  shows "fst (downloadBlock env b opts) = Inr \<lparr>success = False, reason = Some e, filepath = None\<rparr>"
  using assms
  by (simp add: downloadBlock_def downloadBlock_try_def block_filename_def slug_title_def)

lemma downloadBlock_write_fails:
  assumes "image_url b = Some u"
    and "mkdir_resp env (opt_index opts) (path_join env (opt_outputDir opts) (opt_slug opts))
           = None"
    and "get_resp env (opt_index opts) u = Inr data"
    and "block_filename env b = Inr name"
    and "writeFile_resp env (opt_index opts)
           (path_join env (path_join env (opt_outputDir opts) (opt_slug opts)) name) data = Some e"
  shows "fst (downloadBlock env b opts) = Inr \<lparr>success = False, reason = Some e, filepath = None\<rparr>"
  using assms by (simp add: downloadBlock_def downloadBlock_try_def Let_def)

lemma downloadBlock_succeeds:
  assumes "image_url b = Some u"
    and "mkdir_resp env (opt_index opts) (path_join env (opt_outputDir opts) (opt_slug opts))
           = None"
    and "get_resp env (opt_index opts) u = Inr data"
    and "block_filename env b = Inr name"
    and "writeFile_resp env (opt_index opts)
           (path_join env (path_join env (opt_outputDir opts) (opt_slug opts)) name) data = None"
  shows "fst (downloadBlock env b opts)
           = Inr \<lparr>success = True, reason = None,
                  filepath = Some (path_join env (path_join env (opt_outputDir opts) (opt_slug opts))
                                     name)\<rparr>"
  using assms by (simp add: downloadBlock_def downloadBlock_try_def Let_def)

lemma downloadChannel_fails_page:
  assumes "downloadChannel env slug outputDir c = Some (Inl e, tr)"
  shows "slug = [] \<or> js_less c (Num 1) \<or> js_greater c (Num 50)
         \<or> getThumb_resp env slug = Inl e
         \<or> (\<exists>s p. getThumb_resp env slug = Inr s \<and> p \<in> set (pageNumbers (chan_length s))
                \<and> getPage_resp env slug p PER_PAGE = Inl e)"
proof -
  from downloadChannel_fails_only [OF assms]
  consider "slug = [] \<or> js_less c (Num 1) \<or> js_greater c (Num 50)
              \<or> getThumb_resp env slug = Inl e"
    | s where "getThumb_resp env slug = Inr s"
        "promise_all (pagePromises env slug (pageNumbers (chan_length s))) = Inl e"
    by blast
  then show ?thesis
  proof cases
    case 1
    then show ?thesis by blast
  next
    case 2
    from promise_all_Inl [OF 2(2)]
    have "\<exists>p \<in> set (pageNumbers (chan_length s)). getPage_resp env slug p PER_PAGE = Inl e"
      by (auto simp: pagePromises_def)
    with 2(1) show ?thesis by blast
  qed
qed

text \<open>When two pages fail, the error thrown is the one that arrives first: on the channel
  \<open>rent\<close> the answer for page 3 comes before the answer for page 2.\<close>

lemma rent_run:
  "downloadChannel demo_env ''rent'' ''out'' (Num 2)
     = Some (Inl ''timeout of 30000ms exceeded'',
             [FetchThumb ''rent'', FetchPage ''rent'' 1 100, FetchPage ''rent'' 2 100,
              FetchPage ''rent'' 3 100, Fatal ''timeout of 30000ms exceeded''])"
  by code_simp

lemma b1_facts:
  "image_url b1 = Some ''http://a/1''" "block_title b1 = Some ''Red Sky!!''"
  "block_filename demo_env b1 = Inr ''42_red-sky.jpg''"
  "block_filename env_no_write b1 = Inr ''42_red-sky.jpg''"
  by (simp_all add: image_url_def b1_def block_filename_def slug_title_def file_ext_def
        demo_env_def env_no_write_def show_int_42)

text \<open>
  C2. An error in a step of a block does not leave \<open>downloadBlock\<close>: its promise is always
  fulfilled, and when making the directory, fetching the image, computing the filename
  (\<open>slugify\<close> throwing) or writing the file fails, the object returned is
  \<open>{success: false, reason: message}\<close> with the message of that error; when every step
  succeeds it is \<open>{success: true, filepath}\<close>. The pipeline returns normally for every
  input that passes the checks once the summary and every page are fetched, whatever
  happens to the blocks; and when it throws, the cause is the slug, the chunk size, the
  summary, or a page whose error it throws.
\<close>

theorem block_errors_do_not_escape:
  fixes env :: env and b :: block and opts :: options
  defines "dir \<equiv> path_join env (opt_outputDir opts) (opt_slug opts)"
  defines "i \<equiv> opt_index opts"
  defines "failure \<equiv> \<lambda>e. \<lparr>success = False, reason = Some e, filepath = None\<rparr>"
  shows
  "(\<exists>v. fst (downloadBlock env b opts) = Inr v)
   \<and> (\<forall>u e. image_url b = Some u \<and> mkdir_resp env i dir = Some e
         \<longrightarrow> fst (downloadBlock env b opts) = Inr (failure e))
   \<and> (\<forall>u e. image_url b = Some u \<and> mkdir_resp env i dir = None \<and> get_resp env i u = Inl e
         \<longrightarrow> fst (downloadBlock env b opts) = Inr (failure e))
   \<and> (\<forall>u data t e. image_url b = Some u \<and> mkdir_resp env i dir = None
           \<and> get_resp env i u = Inr data
           \<and> block_title b = Some t \<and> t \<noteq> [] \<and> slugify env t = Inl e
         \<longrightarrow> fst (downloadBlock env b opts) = Inr (failure e))
   \<and> (\<forall>u data name e. image_url b = Some u \<and> mkdir_resp env i dir = None
           \<and> get_resp env i u = Inr data \<and> block_filename env b = Inr name
           \<and> writeFile_resp env i (path_join env dir name) data = Some e
         \<longrightarrow> fst (downloadBlock env b opts) = Inr (failure e))
   \<and> (\<forall>u data name. image_url b = Some u \<and> mkdir_resp env i dir = None
           \<and> get_resp env i u = Inr data \<and> block_filename env b = Inr name
           \<and> writeFile_resp env i (path_join env dir name) data = None
         \<longrightarrow> fst (downloadBlock env b opts)
               = Inr \<lparr>success = True, reason = None, filepath = Some (path_join env dir name)\<rparr>)
   \<and> (slug \<noteq> [] \<and> \<not> js_less c (Num 1) \<and> \<not> js_greater c (Num 50)
        \<and> getThumb_resp env slug = Inr s
        \<and> (chan_length s = 0
            \<or> promise_all (pagePromises env slug (pageNumbers (chan_length s))) = Inr pages)
       \<longrightarrow> (\<exists>tr. downloadChannel env slug outputDir c = Some (Inr (), tr)))
   \<and> (\<forall>e tr. downloadChannel env slug outputDir c = Some (Inl e, tr)
         \<longrightarrow> slug = [] \<or> js_less c (Num 1) \<or> js_greater c (Num 50)
             \<or> getThumb_resp env slug = Inl e
             \<or> (\<exists>s' p. getThumb_resp env slug = Inr s' \<and> p \<in> set (pageNumbers (chan_length s'))
                    \<and> getPage_resp env slug p PER_PAGE = Inl e))"
proof -
  have c1: "\<exists>v. fst (downloadBlock env b opts) = Inr v"
    by (rule downloadBlock_fulfilled)
  have c2: "\<forall>u e. image_url b = Some u
              \<and> mkdir_resp env (opt_index opts)
                    (path_join env (opt_outputDir opts) (opt_slug opts)) = Some e
            \<longrightarrow> fst (downloadBlock env b opts)
                  = Inr \<lparr>success = False, reason = Some e, filepath = None\<rparr>"
    using downloadBlock_mkdir_fails by blast
  have c3: "\<forall>u e. image_url b = Some u
              \<and> mkdir_resp env (opt_index opts)
                    (path_join env (opt_outputDir opts) (opt_slug opts)) = None
              \<and> get_resp env (opt_index opts) u = Inl e
            \<longrightarrow> fst (downloadBlock env b opts)
                  = Inr \<lparr>success = False, reason = Some e, filepath = None\<rparr>"
    using downloadBlock_fetch_fails by blast
  have c4: "\<forall>u data t e. image_url b = Some u
              \<and> mkdir_resp env (opt_index opts)
                    (path_join env (opt_outputDir opts) (opt_slug opts)) = None
              \<and> get_resp env (opt_index opts) u = Inr data
              \<and> block_title b = Some t \<and> t \<noteq> [] \<and> slugify env t = Inl e
            \<longrightarrow> fst (downloadBlock env b opts)
                  = Inr \<lparr>success = False, reason = Some e, filepath = None\<rparr>"
    using downloadBlock_name_fails by blast
  have c5: "\<forall>u data name e. image_url b = Some u
              \<and> mkdir_resp env (opt_index opts)
                    (path_join env (opt_outputDir opts) (opt_slug opts)) = None
              \<and> get_resp env (opt_index opts) u = Inr data \<and> block_filename env b = Inr name
              \<and> writeFile_resp env (opt_index opts)
                    (path_join env (path_join env (opt_outputDir opts) (opt_slug opts)) name)
                    data = Some e
            \<longrightarrow> fst (downloadBlock env b opts)
                  = Inr \<lparr>success = False, reason = Some e, filepath = None\<rparr>"
    using downloadBlock_write_fails by blast
  have c6: "\<forall>u data name. image_url b = Some u
              \<and> mkdir_resp env (opt_index opts)
                    (path_join env (opt_outputDir opts) (opt_slug opts)) = None
              \<and> get_resp env (opt_index opts) u = Inr data \<and> block_filename env b = Inr name
              \<and> writeFile_resp env (opt_index opts)
                    (path_join env (path_join env (opt_outputDir opts) (opt_slug opts)) name)
                    data = None
            \<longrightarrow> fst (downloadBlock env b opts)
                  = Inr \<lparr>success = True, reason = None,
                         filepath = Some (path_join env
                                            (path_join env (opt_outputDir opts) (opt_slug opts))
                                            name)\<rparr>"
    using downloadBlock_succeeds by blast
  have c7: "slug \<noteq> [] \<and> \<not> js_less c (Num 1) \<and> \<not> js_greater c (Num 50)
              \<and> getThumb_resp env slug = Inr s
              \<and> (chan_length s = 0
                  \<or> promise_all (pagePromises env slug (pageNumbers (chan_length s))) = Inr pages)
            \<longrightarrow> (\<exists>tr. downloadChannel env slug outputDir c = Some (Inr (), tr))"
    using downloadChannel_completes [of slug c env s pages outputDir] by blast
  have c8: "\<forall>e tr. downloadChannel env slug outputDir c = Some (Inl e, tr)
            \<longrightarrow> slug = [] \<or> js_less c (Num 1) \<or> js_greater c (Num 50)
                \<or> getThumb_resp env slug = Inl e
                \<or> (\<exists>s' p. getThumb_resp env slug = Inr s'
                       \<and> p \<in> set (pageNumbers (chan_length s'))
                       \<and> getPage_resp env slug p PER_PAGE = Inl e)"
    using downloadChannel_fails_page [of env slug outputDir c] by blast
  show ?thesis
    unfolding dir_def i_def failure_def
    by (intro conjI c1 c2 c3 c4 c5 c6 c7 c8)
qed

theorem block_errors_do_not_escape_witness:
  "image_url b1 = Some ''http://a/1'' \<and> image_url b2 = Some ''http://a/2''
   \<and> mkdir_resp env_no_mkdir (Num 1) ''/o/frog'' = Some ''EACCES: permission denied''
   \<and> fst (downloadBlock env_no_mkdir b1 opts1)
       = Inr \<lparr>success = False, reason = Some ''EACCES: permission denied'', filepath = None\<rparr>
   \<and> mkdir_resp demo_env (Num 1) ''/o/frog'' = None
   \<and> get_resp demo_env (Num 1) ''http://a/2'' = Inl ''timeout of 30000ms exceeded''
   \<and> fst (downloadBlock demo_env b2 opts1)
       = Inr \<lparr>success = False, reason = Some ''timeout of 30000ms exceeded'', filepath = None\<rparr>
   \<and> slugify env_no_slug ''Red Sky!!'' = Inl ''slugify: string argument expected''
   \<and> fst (downloadBlock env_no_slug b1 opts1)
       = Inr \<lparr>success = False, reason = Some ''slugify: string argument expected'',
              filepath = None\<rparr>
   \<and> writeFile_resp env_no_write (Num 1) ''/o/frog/42_red-sky.jpg'' [1, 2, 3]
       = Some ''ENOSPC: no space left on device''
   \<and> fst (downloadBlock env_no_write b1 opts1)
       = Inr \<lparr>success = False, reason = Some ''ENOSPC: no space left on device'',
              filepath = None\<rparr>
   \<and> writeFile_resp demo_env (Num 1) ''/o/frog/42_red-sky.jpg'' [1, 2, 3] = None
   \<and> fst (downloadBlock demo_env b1 opts1)
       = Inr \<lparr>success = True, reason = None, filepath = Some ''/o/frog/42_red-sky.jpg''\<rparr>
   \<and> ''frog'' \<noteq> [] \<and> \<not> js_less (Num 2) (Num 1) \<and> \<not> js_greater (Num 2) (Num 50)
   \<and> getThumb_resp demo_env ''frog'' = Inr frog_summary
   \<and> promise_all (pagePromises demo_env ''frog'' (pageNumbers (chan_length frog_summary)))
       = Inr [frog_page]
   \<and> (\<exists>tr. downloadChannel demo_env ''frog'' ''out'' (Num 2) = Some (Inr (), tr))
   \<and> (\<exists>tr. downloadChannel demo_env ''rent'' ''out'' (Num 2)
               = Some (Inl ''timeout of 30000ms exceeded'', tr))
   \<and> (\<exists>s p. getThumb_resp demo_env ''rent'' = Inr s \<and> p \<in> set (pageNumbers (chan_length s))
          \<and> getPage_resp demo_env ''rent'' p PER_PAGE = Inl ''timeout of 30000ms exceeded'')"
proof -
  let ?fail = "\<lambda>e. Inr \<lparr>success = False, reason = Some e, filepath = None\<rparr> :: error + outcome"
  have dir: "path_join env_no_mkdir (opt_outputDir opts1) (opt_slug opts1) = ''/o/frog''"
    "path_join demo_env (opt_outputDir opts1) (opt_slug opts1) = ''/o/frog''"
    "path_join env_no_slug (opt_outputDir opts1) (opt_slug opts1) = ''/o/frog''"
    "path_join env_no_write (opt_outputDir opts1) (opt_slug opts1) = ''/o/frog''"
    "path_join env_no_write ''/o/frog'' ''42_red-sky.jpg'' = ''/o/frog/42_red-sky.jpg''"
    "path_join demo_env ''/o/frog'' ''42_red-sky.jpg'' = ''/o/frog/42_red-sky.jpg''"
    "opt_index opts1 = Num 1"
    by (simp_all add: env_no_mkdir_def env_no_slug_def env_no_write_def demo_env_def opts1_def)
  have img: "image_url b1 = Some ''http://a/1''" "image_url b2 = Some ''http://a/2''"
    by (simp_all add: image_url_def b1_def b2_def)
  have mk: "mkdir_resp env_no_mkdir (Num 1) ''/o/frog'' = Some ''EACCES: permission denied''"
    "mkdir_resp demo_env (Num 1) ''/o/frog'' = None"
    "mkdir_resp env_no_slug (Num 1) ''/o/frog'' = None"
    "mkdir_resp env_no_write (Num 1) ''/o/frog'' = None"
    by (simp_all add: env_no_mkdir_def env_no_slug_def env_no_write_def demo_env_def)
  have get: "get_resp demo_env (Num 1) ''http://a/2'' = Inl ''timeout of 30000ms exceeded''"
    "get_resp demo_env (Num 1) ''http://a/1'' = Inr [1, 2, 3]"
    "get_resp env_no_slug (Num 1) ''http://a/1'' = Inr [1, 2, 3]"
    "get_resp env_no_write (Num 1) ''http://a/1'' = Inr [1, 2, 3]"
    by (simp_all add: env_no_slug_def env_no_write_def demo_env_def)
  have slug: "slugify env_no_slug ''Red Sky!!'' = Inl ''slugify: string argument expected''"
    by (simp add: env_no_slug_def)
  have wr: "writeFile_resp env_no_write (Num 1) ''/o/frog/42_red-sky.jpg'' [1, 2, 3]
              = Some ''ENOSPC: no space left on device''"
    "writeFile_resp demo_env (Num 1) ''/o/frog/42_red-sky.jpg'' [1, 2, 3] = None"
    by (simp_all add: env_no_write_def demo_env_def)
  note c2 = block_errors_do_not_escape [THEN conjunct2, THEN conjunct1]
  note c3 = block_errors_do_not_escape [THEN conjunct2, THEN conjunct2, THEN conjunct1]
  note c4 = block_errors_do_not_escape
              [THEN conjunct2, THEN conjunct2, THEN conjunct2, THEN conjunct1]
  note c5 = block_errors_do_not_escape
              [THEN conjunct2, THEN conjunct2, THEN conjunct2, THEN conjunct2, THEN conjunct1]
  note c6 = block_errors_do_not_escape
              [THEN conjunct2, THEN conjunct2, THEN conjunct2, THEN conjunct2, THEN conjunct2,
               THEN conjunct1]
  note c7 = block_errors_do_not_escape
              [THEN conjunct2, THEN conjunct2, THEN conjunct2, THEN conjunct2, THEN conjunct2,
               THEN conjunct2, THEN conjunct1]
  note c8 = block_errors_do_not_escape
              [THEN conjunct2, THEN conjunct2, THEN conjunct2, THEN conjunct2, THEN conjunct2,
               THEN conjunct2, THEN conjunct2]
  have w1: "fst (downloadBlock env_no_mkdir b1 opts1) = ?fail ''EACCES: permission denied''"
    using c2 [of b1 env_no_mkdir opts1, unfolded dir(1-4,7)] img(1) mk(1) by blast
  have w2: "fst (downloadBlock demo_env b2 opts1) = ?fail ''timeout of 30000ms exceeded''"
    using c3 [of b2 demo_env opts1, unfolded dir(1-4,7)] img(2) mk(2) get(1) by blast
  have w3: "fst (downloadBlock env_no_slug b1 opts1) = ?fail ''slugify: string argument expected''"
    using c4 [of b1 env_no_slug opts1, unfolded dir(1-4,7)] img(1) mk(3) get(3) b1_facts(2) slug
    by blast
  have wr': "writeFile_resp env_no_write (Num 1)
               (path_join env_no_write ''/o/frog'' ''42_red-sky.jpg'') [1, 2, 3]
               = Some ''ENOSPC: no space left on device''"
    "writeFile_resp demo_env (Num 1)
       (path_join demo_env ''/o/frog'' ''42_red-sky.jpg'') [1, 2, 3] = None"
    by (simp_all only: dir wr)
  have w4: "fst (downloadBlock env_no_write b1 opts1) = ?fail ''ENOSPC: no space left on device''"
    using c5 [of b1 env_no_write opts1, unfolded dir(1-4,7)] img(1) mk(4) get(4) b1_facts(4) wr'(1)
    by blast
  have "fst (downloadBlock demo_env b1 opts1)
          = Inr \<lparr>success = True, reason = None,
                 filepath = Some (path_join demo_env ''/o/frog'' ''42_red-sky.jpg'')\<rparr>"
    using c6 [of b1 demo_env opts1, unfolded dir(1-4,7)] img(1) mk(2) get(2) b1_facts(3) wr'(2)
    by blast
  then have w5: "fst (downloadBlock demo_env b1 opts1)
              = Inr \<lparr>success = True, reason = None, filepath = Some ''/o/frog/42_red-sky.jpg''\<rparr>"
    by (simp only: dir)
  have w6: "\<exists>tr. downloadChannel demo_env ''frog'' ''out'' (Num 2) = Some (Inr (), tr)"
    using c7 [of "''frog''" "Num 2" demo_env frog_summary "[frog_page]" "''out''"]
      frog_run(1,4,7) frog_valid
    by blast
  have thumb: "getThumb_resp demo_env ''rent'' \<noteq> Inl ''timeout of 30000ms exceeded''"
    by (simp add: demo_env_def)
  have w7: "\<exists>s p. getThumb_resp demo_env ''rent'' = Inr s \<and> p \<in> set (pageNumbers (chan_length s))
          \<and> getPage_resp demo_env ''rent'' p PER_PAGE = Inl ''timeout of 30000ms exceeded''"
    using c8 [of demo_env "''rent''" "''out''" "Num 2"] rent_run frog_valid thumb
    by blast
  have w8: "\<exists>tr. downloadChannel demo_env ''rent'' ''out'' (Num 2)
               = Some (Inl ''timeout of 30000ms exceeded'', tr)"
    using rent_run by blast
  show ?thesis
    by (intro conjI img mk(1,2) get(1) slug wr w1 w2 w3 w4 w5 w6 w7 w8 frog_run(1,4,7) frog_valid)
qed

subsection \<open>Chunks and counters of a whole run\<close>

lemma downloads_Summary: "downloads (tr @ [Summary d f]) = downloads tr"
  by (simp add: downloads_def)

lemma chunks_seen_Summary: "chunks_seen (tr @ [Summary d f]) = chunks_seen tr"
  by (simp add: chunks_seen_def)

text \<open>
  C3. With a chunk size \<open>k\<close> in 1..50, a run that has fetched its pages cuts the flattened
  list into chunks (the calls of \<open>downloadBlock\<close> between one progress line and the next):
  no chunk is empty or longer than \<open>k\<close>, every chunk but the last has exactly \<open>k\<close> blocks,
  and the chunks in order make up the flattened list. The calls of \<open>downloadBlock\<close> are
  the blocks of the list in their order, each one once, numbered from 1.
\<close>

theorem chunks_partition:
  assumes "slug \<noteq> []" and "1 \<le> k" and "k \<le> 50"
    and "getThumb_resp env slug = Inr s" and "chan_length s \<noteq> 0"
    and "promise_all (pagePromises env slug (pageNumbers (chan_length s)))
           = Inr pages"
  shows "\<exists>tr. downloadChannel env slug outputDir (Num (of_nat k)) = Some (Inr (), tr)
           \<and> concat (chunks_seen tr) = flatContents pages
           \<and> (\<forall>c \<in> set (chunks_seen tr). c \<noteq> [] \<and> length c \<le> k)
           \<and> (\<forall>c \<in> set (butlast (chunks_seen tr)). length c = k)
           \<and> downloads tr = map (\<lambda>(i, b). (Num (of_nat i), b)) (enumerate 1 (flatContents pages))"
proof -
  let ?st = "(0::nat, 0::nat, FetchThumb slug # map (\<lambda>p. FetchPage slug p PER_PAGE)
                                                  (pageNumbers (chan_length s)))"
  let ?R = "chunkRun env slug (path_resolve env outputDir) k (flatContents pages) 0 ?st"
  from assms(2) have k: "0 < k" by simp
  have run: "downloadChannel env slug outputDir (Num (of_nat k))
               = Some (Inr (), snd (snd ?R) @ [Summary (fst ?R) (fst (snd ?R))])"
    by (rule downloadChannel_run [OF assms])
  have "fold chunk_obs (snd (snd ?st)) ([], []) = ([], [])"
    by (simp only: snd_conv start_events(2))
  from chunkRun_chunks [OF k this, of env slug "path_resolve env outputDir" "flatContents pages"]
  have chunks: "concat (chunks_seen (snd (snd ?R))) = flatContents pages"
    "\<forall>c \<in> set (chunks_seen (snd (snd ?R))). c \<noteq> [] \<and> length c \<le> k"
    "\<forall>c \<in> set (butlast (chunks_seen (snd (snd ?R)))). length c = k"
    by blast+
  have "downloads (snd (snd ?st))
          = map (\<lambda>(i, b). (Num (of_nat i), b)) (enumerate 1 (take 0 (flatContents pages)))"
    by (simp only: snd_conv start_events(1)) simp
  from chunkRun_downloads [OF k this]
  have "downloads (snd (snd ?R))
          = map (\<lambda>(i, b). (Num (of_nat i), b)) (enumerate 1 (flatContents pages))" .
  with run chunks show ?thesis
    by (simp only: downloads_Summary chunks_seen_Summary ex_simps simp_thms option.inject
          prod.inject) 
qed

theorem chunks_partition_witness:
  "''frog'' \<noteq> [] \<and> (1::nat) \<le> 2 \<and> (2::nat) \<le> 50
   \<and> getThumb_resp demo_env ''frog'' = Inr frog_summary \<and> chan_length frog_summary \<noteq> 0
   \<and> promise_all (pagePromises demo_env ''frog'' (pageNumbers (chan_length frog_summary))) = Inr [frog_page]
   \<and> (\<exists>tr. downloadChannel demo_env ''frog'' ''out'' (Num (of_nat 2)) = Some (Inr (), tr)
          \<and> concat (chunks_seen tr) = [b1, b2, b3, b4]
          \<and> (\<forall>c \<in> set (chunks_seen tr). c \<noteq> [] \<and> length c \<le> 2)
          \<and> (\<forall>c \<in> set (butlast (chunks_seen tr)). length c = 2)
          \<and> downloads tr = [(Num 1, b1), (Num 2, b2), (Num 3, b3), (Num 4, b4)])"
proof -
  have "flatContents [frog_page] = [b1, b2, b3, b4]"
    by (simp add: flatContents_def frog_page_def)
  moreover have "map (\<lambda>(i, b). (Num (of_nat i), b)) (enumerate 1 [b1, b2, b3, b4])
                   = [(Num 1, b1), (Num 2, b2), (Num 3, b3), (Num 4, b4)]"
    by simp
  ultimately show ?thesis
    using chunks_partition [OF frog_run(1,2,3,4,5,7), of "''out''"] frog_run
    by simp
qed

lemma map_snd_numbered: "map snd (map (\<lambda>(i, b). (f i, b)) (enumerate n xs)) = xs"
proof -
  have "map snd (map (\<lambda>(i, b). (f i, b)) (enumerate n xs)) = map snd (enumerate n xs)"
    by (simp add: case_prod_unfold comp_def)
  then show ?thesis by simp
qed

text \<open>
  The counters on an integer chunk size. With a chunk size \<open>k\<close> in 1..50, in a run that
  has fetched its pages the counters of every progress line add up to the number of calls
  of \<open>downloadBlock\<close> made before that line, and the counters of the final summary add up
  to the length of the flattened list, which is also the number of calls made: every
  block is counted once, as downloaded or as failed.
\<close>

lemma counters_add_up:
  assumes "slug \<noteq> []" and "1 \<le> k" and "k \<le> 50"
    and "getThumb_resp env slug = Inr s" and "chan_length s \<noteq> 0"
    and "promise_all (pagePromises env slug (pageNumbers (chan_length s)))
           = Inr pages"
  shows "\<exists>d f tr. downloadChannel env slug outputDir (Num (of_nat k))
                    = Some (Inr (), tr @ [Summary d f])
           \<and> d + f = length (flatContents pages)
           \<and> length (downloads tr) = length (flatContents pages)
           \<and> (\<forall>j < length tr. \<forall>c. counters_of (tr ! j) = Some c
                 \<longrightarrow> fst c + snd c = length (downloads (take j tr)))"
proof -
  let ?tr0 = "FetchThumb slug # map (\<lambda>p. FetchPage slug p PER_PAGE) (pageNumbers (chan_length s))"
  let ?st = "(0::nat, 0::nat, ?tr0)"
  let ?R = "chunkRun env slug (path_resolve env outputDir) k (flatContents pages) 0 ?st"
  from assms(2) have k: "0 < k" by simp
  have run: "downloadChannel env slug outputDir (Num (of_nat k))
               = Some (Inr (), snd (snd ?R) @ [Summary (fst ?R) (fst (snd ?R))])"
    by (rule downloadChannel_run [OF assms])
  have sum: "fst ?R + fst (snd ?R) = length (flatContents pages)"
    by (rule chunkRun_counters [OF k]) simp
  have "length (downloads (snd (snd ?st))) = fst ?st + fst (snd ?st)"
    by (simp only: snd_conv fst_conv start_events(1)) simp
  moreover have "\<forall>j < length (snd (snd ?st)). \<forall>c. counters_of (snd (snd ?st) ! j) = Some c
                   \<longrightarrow> fst c + snd c = length (downloads (take j (snd (snd ?st))))"
    using start_events(4) [of slug PER_PAGE "pageNumbers (chan_length s)"]
    by (simp only: snd_conv) (metis nth_mem option.distinct(1))
  ultimately have prog: "length (downloads (snd (snd ?R))) = fst ?R + fst (snd ?R)"
    "\<forall>j < length (snd (snd ?R)). \<forall>c. counters_of (snd (snd ?R) ! j) = Some c
       \<longrightarrow> fst c + snd c = length (downloads (take j (snd (snd ?R))))"
    using chunkRun_progress [OF k, of ?st env slug "path_resolve env outputDir"
                               "flatContents pages" 0]
    by blast+
  from run sum prog show ?thesis by (metis (no_types, lifting))
qed

lemma counters_add_up_frog:
  "''frog'' \<noteq> [] \<and> (1::nat) \<le> 2 \<and> (2::nat) \<le> 50
   \<and> getThumb_resp demo_env ''frog'' = Inr frog_summary \<and> chan_length frog_summary \<noteq> 0
   \<and> promise_all (pagePromises demo_env ''frog'' (pageNumbers (chan_length frog_summary))) = Inr [frog_page]
   \<and> (\<exists>d f tr. downloadChannel demo_env ''frog'' ''out'' (Num (of_nat 2))
                  = Some (Inr (), tr @ [Summary d f])
          \<and> d + f = 4
          \<and> length (downloads tr) = 4
          \<and> (\<forall>j < length tr. \<forall>c. counters_of (tr ! j) = Some c
                \<longrightarrow> fst c + snd c = length (downloads (take j tr))))"
proof -
  have "length (flatContents [frog_page]) = 4"
    by (simp add: flatContents_def frog_page_def)
  then show ?thesis
    using counters_add_up [OF frog_run(1,2,3,4,5,7), of "''out''"] frog_run
    by simp
qed

text \<open>
  C10. The counter invariant (after each chunk, and at the end, downloaded + failed is the
  number of blocks of the flattened list passed so far) holds on the integer chunk sizes
  above, but the code breaks it for the chunk size \<open>NaN\<close>, which \<open>-c abc\<close> gives and the
  check of line 117 lets through: the loop takes one empty chunk (\<open>slice(0, NaN)\<close>) and
  stops, no block is passed to \<open>downloadBlock\<close>, and on the channel \<open>frog\<close>, whose
  flattened list has 4 blocks, the run returns normally with a summary of 0 downloaded
  and 0 failed.
\<close>

theorem counters_short_on_nan:
  "\<not> js_less NaN (Num 1) \<and> \<not> js_greater NaN (Num 50)
   \<and> promise_all (pagePromises demo_env ''frog'' (pageNumbers (chan_length frog_summary)))
       = Inr [frog_page]
   \<and> length (flatContents [frog_page]) = 4
   \<and> downloadChannel demo_env ''frog'' ''out'' NaN
       = Some (Inr (), [FetchThumb ''frog'', FetchPage ''frog'' 1 100, Progress 0 4 0,
                        Summary 0 0])"
  using nan_chunk_size_run frog_run(7)
  by (simp add: js_greater_def flatContents_def frog_page_def)

text \<open>
  C9. A block with no image gives the object \<open>{success: false, reason: 'no-image'}\<close>,
  which the loop counts as failed: in a run that has fetched its pages, with a chunk
  size in 1..50, the failed counter of the final summary is at least the number of
  blocks with no image, and the downloaded counter is at most the number of the others.
\<close>

theorem skipped_blocks_count_as_failed:
  assumes "slug \<noteq> []" and "1 \<le> k" and "k \<le> 50"
    and "getThumb_resp env slug = Inr s" and "chan_length s \<noteq> 0"
    and "promise_all (pagePromises env slug (pageNumbers (chan_length s)))
           = Inr pages"
  shows "(\<forall>b opts. image_url b = None \<longrightarrow>
            fst (downloadBlock env b opts)
              = Inr \<lparr>success = False, reason = Some ''no-image'', filepath = None\<rparr>
            \<and> \<not> fulfilled_ok (fst (downloadBlock env b opts)))
         \<and> (\<exists>d f tr. downloadChannel env slug outputDir (Num (of_nat k))
                         = Some (Inr (), tr @ [Summary d f])
                \<and> length (filter (\<lambda>b. image_url b = None) (flatContents pages)) \<le> f
                \<and> d \<le> length (filter (\<lambda>b. image_url b \<noteq> None) (flatContents pages)))"
proof -
  let ?tr0 = "FetchThumb slug # map (\<lambda>p. FetchPage slug p PER_PAGE) (pageNumbers (chan_length s))"
  let ?st = "(0::nat, 0::nat, ?tr0)"
  let ?R = "chunkRun env slug (path_resolve env outputDir) k (flatContents pages) 0 ?st"
  from assms(2) have k: "0 < k" by simp
  have run: "downloadChannel env slug outputDir (Num (of_nat k))
               = Some (Inr (), snd (snd ?R) @ [Summary (fst ?R) (fst (snd ?R))])"
    by (rule downloadChannel_run [OF assms])
  have sum: "fst ?R + fst (snd ?R) = length (flatContents pages)"
    by (rule chunkRun_counters [OF k]) simp
  have failed: "length (filter (\<lambda>b. image_url b = None) (flatContents pages)) \<le> fst (snd ?R)"
    by (rule chunkRun_no_image [OF k]) simp
  have "length (filter (\<lambda>b. image_url b = None) (flatContents pages))
          + length (filter (\<lambda>b. image_url b \<noteq> None) (flatContents pages))
        = length (flatContents pages)"
    by (rule sum_length_filter_compl)
  with sum failed
  have "fst ?R \<le> length (filter (\<lambda>b. image_url b \<noteq> None) (flatContents pages))"
    by linarith
  with run failed
  have "\<exists>d f tr. downloadChannel env slug outputDir (Num (of_nat k))
                    = Some (Inr (), tr @ [Summary d f])
           \<and> length (filter (\<lambda>b. image_url b = None) (flatContents pages)) \<le> f
           \<and> d \<le> length (filter (\<lambda>b. image_url b \<noteq> None) (flatContents pages))"
    by blast
  moreover have "\<forall>b opts. image_url b = None \<longrightarrow>
            fst (downloadBlock env b opts)
              = Inr \<lparr>success = False, reason = Some ''no-image'', filepath = None\<rparr>
            \<and> \<not> fulfilled_ok (fst (downloadBlock env b opts))"
    by (simp add: downloadBlock_no_image fulfilled_ok_def)
  ultimately show ?thesis by blast
qed

lemma frog_no_image:
  "filter (\<lambda>b. image_url b = None) [b1, b2, b3, b4] = [b3]"
  "filter (\<lambda>b. image_url b \<noteq> None) [b1, b2, b3, b4] = [b1, b2, b4]"
  by (simp_all add: image_url_def b1_def b2_def b3_def b4_def)

theorem skipped_blocks_count_as_failed_witness:
  "''frog'' \<noteq> [] \<and> (1::nat) \<le> 2 \<and> (2::nat) \<le> 50
   \<and> getThumb_resp demo_env ''frog'' = Inr frog_summary \<and> chan_length frog_summary \<noteq> 0
   \<and> promise_all (pagePromises demo_env ''frog'' (pageNumbers (chan_length frog_summary))) = Inr [frog_page]
   \<and> image_url b3 = None
   \<and> fst (downloadBlock demo_env b3 \<lparr>opt_slug = ''frog'', opt_outputDir = ''/o'', opt_index = Num 3\<rparr>)
       = Inr \<lparr>success = False, reason = Some ''no-image'', filepath = None\<rparr>
   \<and> (\<exists>d f tr. downloadChannel demo_env ''frog'' ''out'' (Num (of_nat 2))
                  = Some (Inr (), tr @ [Summary d f])
          \<and> 1 \<le> f \<and> d \<le> 3)"
proof -
  have flat: "flatContents [frog_page] = [b1, b2, b3, b4]"
    by (simp add: flatContents_def frog_page_def)
  have b3: "image_url b3 = None"
    by (simp add: image_url_def b3_def)
  from skipped_blocks_count_as_failed [OF frog_run(1,2,3,4,5,7), of "''out''"]
  have all: "\<forall>b opts. image_url b = None \<longrightarrow>
            fst (downloadBlock demo_env b opts)
              = Inr \<lparr>success = False, reason = Some ''no-image'', filepath = None\<rparr>
            \<and> \<not> fulfilled_ok (fst (downloadBlock demo_env b opts))"
    and run: "\<exists>d f tr. downloadChannel demo_env ''frog'' ''out'' (Num (of_nat 2))
                         = Some (Inr (), tr @ [Summary d f])
                \<and> length [b3] \<le> f \<and> d \<le> length [b1, b2, b4]"
    unfolding flat frog_no_image by blast+
  from all b3
  have "fst (downloadBlock demo_env b3
               \<lparr>opt_slug = ''frog'', opt_outputDir = ''/o'', opt_index = Num 3\<rparr>)
          = Inr \<lparr>success = False, reason = Some ''no-image'', filepath = None\<rparr>"
    by blast
  with run b3 frog_run show ?thesis by (simp add: numeral_3_eq_3)
qed

lemma page_event_Fatal: "filter page_event (tr @ [Fatal e]) = filter page_event tr"
  by simp

lemma page_event_Summary: "filter page_event (tr @ [Summary d f]) = filter page_event tr"
  by simp

text \<open>
  C6. For a positive block count the pages asked for are the pages 1 to \<open>P\<close>, each once
  and in this order, with 100 blocks a page, where \<open>P\<close> is the ceiling of the count over
  100: the number with \<open>100 * (P - 1) < count \<le> 100 * P\<close>. This holds whether the pages
  are fetched or not. When they are, the blocks handed to \<open>downloadBlock\<close> are the
  contents of page 1, then those of page 2, and so on, each page in its own order.
\<close>

theorem pages_fetched:
  assumes "slug \<noteq> []" and "1 \<le> k" and "k \<le> 50"
    and "getThumb_resp env slug = Inr s" and "0 < chan_length s"
  shows "PER_PAGE = 100
         \<and> int PER_PAGE * (totalPages (chan_length s) - 1) < chan_length s
         \<and> chan_length s \<le> int PER_PAGE * totalPages (chan_length s)
         \<and> (\<exists>r tr. downloadChannel env slug outputDir (Num (of_nat k)) = Some (r, tr)
                \<and> filter page_event tr
                    = map (\<lambda>p. FetchPage slug p PER_PAGE)
                        [1..<Suc (nat (totalPages (chan_length s)))])
         \<and> (\<forall>pages. map (\<lambda>p. getPage_resp env slug p PER_PAGE)
                        [1..<Suc (nat (totalPages (chan_length s)))] = map Inr pages
               \<longrightarrow> (\<exists>tr. downloadChannel env slug outputDir (Num (of_nat k)) = Some (Inr (), tr)
                      \<and> map snd (downloads tr) = concat (map contents pages)))"
proof -
  let ?ps = "pageNumbers (chan_length s)"
  let ?tr0 = "FetchThumb slug # map (\<lambda>p. FetchPage slug p PER_PAGE) ?ps"
  let ?st = "(0::nat, 0::nat, ?tr0)"
  let ?rs = "pagePromises env slug ?ps"
  from assms(2) have k: "0 < k" by simp
  from assms(5) have len: "chan_length s \<noteq> 0" by simp
  have ps: "?ps = [1..<Suc (nat (totalPages (chan_length s)))]"
    by (rule pageNumbers_upt)
  have run: "downloadChannel env slug outputDir (Num (of_nat k))
               = Some (Inr (),
                   snd (snd (chunkRun env slug (path_resolve env outputDir) k
                               (flatContents pages) 0 ?st))
                   @ [Summary
                        (fst (chunkRun env slug (path_resolve env outputDir) k
                               (flatContents pages) 0 ?st))
                        (fst (snd (chunkRun env slug (path_resolve env outputDir) k
                               (flatContents pages) 0 ?st)))])"
    if "promise_all ?rs = Inr pages" for pages
    by (rule downloadChannel_run [OF assms(1-4) len that])
  have fetched: "\<exists>r tr. downloadChannel env slug outputDir (Num (of_nat k)) = Some (r, tr)
                   \<and> filter page_event tr = map (\<lambda>p. FetchPage slug p PER_PAGE) ?ps"
  proof (cases "promise_all ?rs")
    case (Inl e)
    with assms(1,4) len valid_chunk_nat [OF assms(2,3)]
    have "downloadChannel env slug outputDir (Num (of_nat k)) = Some (Inl e, ?tr0 @ [Fatal e])"
      by (simp add: downloadChannel_def Let_def)
    moreover have "filter page_event (?tr0 @ [Fatal e]) = map (\<lambda>p. FetchPage slug p PER_PAGE) ?ps"
      by (simp only: page_event_Fatal start_events(3))
    ultimately show ?thesis by blast
  next
    case (Inr pages)
    let ?R = "chunkRun env slug (path_resolve env outputDir) k (flatContents pages) 0 ?st"
    have "filter page_event (snd (snd ?R) @ [Summary (fst ?R) (fst (snd ?R))])
            = map (\<lambda>p. FetchPage slug p PER_PAGE) ?ps"
      by (simp only: page_event_Summary chunkRun_pages [OF k] snd_conv start_events(3))
    with run [OF Inr] show ?thesis by blast
  qed
  have flat: "\<exists>tr. downloadChannel env slug outputDir (Num (of_nat k)) = Some (Inr (), tr)
                \<and> map snd (downloads tr) = concat (map contents pages)"
    if "map (\<lambda>p. getPage_resp env slug p PER_PAGE) ?ps = map Inr pages" for pages
  proof -
    let ?R = "chunkRun env slug (path_resolve env outputDir) k (flatContents pages) 0 ?st"
    from that have all: "promise_all ?rs = Inr pages"
      by (simp only: promise_all_Inr_iff pagePromises_results)
    have "downloads (snd (snd ?st))
            = map (\<lambda>(i, b). (Num (of_nat i), b)) (enumerate 1 (take 0 (flatContents pages)))"
      by (simp only: snd_conv start_events(1)) simp
    from chunkRun_downloads [OF k this]
    have "map snd (downloads (snd (snd ?R))) = flatContents pages"
      by (simp only: map_snd_numbered)
    then have "map snd (downloads (snd (snd ?R) @ [Summary (fst ?R) (fst (snd ?R))]))
                 = concat (map contents pages)"
      by (simp only: downloads_Summary flatContents_def)
    with run [OF all] show ?thesis by blast
  qed
  from totalPages_bounds [of "chan_length s"] fetched flat show ?thesis
    unfolding ps by (simp add: PER_PAGE_def)
qed

theorem pages_fetched_witness:
  "''frog'' \<noteq> [] \<and> (1::nat) \<le> 2 \<and> (2::nat) \<le> 50
   \<and> getThumb_resp demo_env ''frog'' = Inr frog_summary \<and> 0 < chan_length frog_summary
   \<and> map (\<lambda>p. getPage_resp demo_env ''frog'' p PER_PAGE)
         [1..<Suc (nat (totalPages (chan_length frog_summary)))] = map Inr [frog_page]
   \<and> (\<exists>r tr. downloadChannel demo_env ''frog'' ''out'' (Num (of_nat 2)) = Some (r, tr)
          \<and> filter page_event tr = [FetchPage ''frog'' 1 100])
   \<and> (\<exists>tr. downloadChannel demo_env ''frog'' ''out'' (Num (of_nat 2)) = Some (Inr (), tr)
          \<and> map snd (downloads tr) = [b1, b2, b3, b4])"
proof -
  have u: "[1..<Suc (nat (totalPages (chan_length frog_summary)))] = [1]"
    unfolding frog_summary_def by code_simp
  have h: "map (\<lambda>p. getPage_resp demo_env ''frog'' p PER_PAGE)
             [1..<Suc (nat (totalPages (chan_length frog_summary)))] = map Inr [frog_page]"
    unfolding u by (simp add: demo_env_def)
  from pages_fetched [OF frog_run(1,2,3,4,6), of "''out''"]
  have A: "\<exists>r tr. downloadChannel demo_env ''frog'' ''out'' (Num (of_nat 2)) = Some (r, tr)
          \<and> filter page_event tr = map (\<lambda>p. FetchPage ''frog'' p PER_PAGE) [1]"
    and B: "\<forall>pages. map (\<lambda>p. getPage_resp demo_env ''frog'' p PER_PAGE)
                     [1..<Suc (nat (totalPages (chan_length frog_summary)))] = map Inr pages
           \<longrightarrow> (\<exists>tr. downloadChannel demo_env ''frog'' ''out'' (Num (of_nat 2)) = Some (Inr (), tr)
                  \<and> map snd (downloads tr) = concat (map contents pages))"
    unfolding u by blast+
  from A have A': "\<exists>r tr. downloadChannel demo_env ''frog'' ''out'' (Num (of_nat 2)) = Some (r, tr)
          \<and> filter page_event tr = [FetchPage ''frog'' 1 100]"
    by (simp add: PER_PAGE_def)
  from B h
  have "\<exists>tr. downloadChannel demo_env ''frog'' ''out'' (Num (of_nat 2)) = Some (Inr (), tr)
          \<and> map snd (downloads tr) = concat (map contents [frog_page])"
    by blast
  then have B': "\<exists>tr. downloadChannel demo_env ''frog'' ''out'' (Num (of_nat 2)) = Some (Inr (), tr)
          \<and> map snd (downloads tr) = [b1, b2, b3, b4]"
    by (simp add: frog_page_def)
  from A' B' h frog_run show ?thesis by blast
qed

end
